theory Spec2Isabelle
  imports Main "HOL-Library.Word" "HOL-Library.Sublist"
begin

section \<open>Crypto envelope (core/crypto.ts)\<close>

text \<open>
  The module is lines 291 to 480 of \<open>src/unnamed/part_000\<close>.
  A Node \<open>Buffer\<close> is a list of bytes. The functions of \<open>crypto.ts\<close> call into Node's
  \<open>crypto\<close>, \<open>zlib\<close> and \<open>Buffer\<close> libraries; those library calls are the fields of the
  record \<open>nodeLib\<close>, and every function of the module takes the library as its first
  argument. A library call that throws returns \<open>None\<close>.
\<close>

type_synonym byte = "8 word"
type_synonym buffer = "byte list"

record nodeLib =
  utf8_encode :: "string \<Rightarrow> buffer"  \<comment> \<open>\<open>Buffer.from(s, "utf-8")\<close>\<close>
  utf8_decode :: "buffer \<Rightarrow> string"  \<comment> \<open>\<open>buf.toString("utf-8")\<close>\<close>
  base64_encode :: "buffer \<Rightarrow> string"  \<comment> \<open>\<open>buf.toString("base64")\<close>\<close>
  base64_decode :: "string \<Rightarrow> buffer"  \<comment> \<open>\<open>Buffer.from(s, "base64")\<close>, never throws\<close>
  zlib_gzip :: "buffer \<Rightarrow> buffer"
  zlib_gunzip :: "buffer \<Rightarrow> buffer option"
  gcm_seal :: "buffer \<Rightarrow> buffer \<Rightarrow> buffer \<Rightarrow> (buffer \<times> buffer) option"
    \<comment> \<open>\<open>createCipheriv("aes-256-gcm", key, iv)\<close>, \<open>update\<close>/\<open>final\<close> and \<open>getAuthTag\<close>:
        key, iv, data to (ciphertext, tag)\<close>
  gcm_open :: "buffer \<Rightarrow> buffer \<Rightarrow> buffer \<Rightarrow> buffer \<Rightarrow> buffer option"
    \<comment> \<open>\<open>createDecipheriv\<close>, \<open>setAuthTag\<close>, \<open>update\<close>/\<open>final\<close>: key, iv, ciphertext, tag to data;
        \<open>None\<close> when the tag does not verify or the parameters are refused\<close>

datatype error =
    TooShort  \<comment> \<open>"Invalid encrypted data: too short"\<close>
  | CipherError  \<comment> \<open>thrown by the cipher: bad parameters or failed authentication\<close>
  | GunzipError  \<comment> \<open>thrown by \<open>gunzip\<close>\<close>

definition IV_LENGTH :: nat where "IV_LENGTH = 12"
definition AUTH_TAG_LENGTH :: nat where "AUTH_TAG_LENGTH = 16"
definition KEY_LENGTH :: nat where "KEY_LENGTH = 32"
definition SALT_LENGTH :: nat where "SALT_LENGTH = 32"

definition compress :: "nodeLib \<Rightarrow> string \<Rightarrow> buffer" where
  "compress L data = zlib_gzip L (utf8_encode L data)"

definition decompress :: "nodeLib \<Rightarrow> buffer \<Rightarrow> error + string" where
  "decompress L data =
     (case zlib_gunzip L data of
        None \<Rightarrow> Inl GunzipError
      | Some decompressed \<Rightarrow> Inr (utf8_decode L decompressed))"

text \<open>
  \<open>encrypt\<close> draws its nonce from \<open>crypto.randomBytes(IV_LENGTH)\<close>; the bytes drawn are the
  argument \<open>iv\<close>.
\<close>

definition encrypt :: "nodeLib \<Rightarrow> buffer \<Rightarrow> buffer \<Rightarrow> buffer \<Rightarrow> error + buffer" where
  "encrypt L iv data key =
     (case gcm_seal L key iv data of
        None \<Rightarrow> Inl CipherError
      | Some (encrypted, authTag) \<Rightarrow> Inr (iv @ encrypted @ authTag))"

definition decrypt :: "nodeLib \<Rightarrow> buffer \<Rightarrow> buffer \<Rightarrow> error + buffer" where
  "decrypt L encryptedData key =
     (if length encryptedData < IV_LENGTH + AUTH_TAG_LENGTH then Inl TooShort
      else
        let iv = take IV_LENGTH encryptedData;
            authTag = drop (length encryptedData - AUTH_TAG_LENGTH) encryptedData;
            ciphertext = drop IV_LENGTH (take (length encryptedData - AUTH_TAG_LENGTH) encryptedData)
        in (case gcm_open L key iv ciphertext authTag of
              None \<Rightarrow> Inl CipherError
            | Some d \<Rightarrow> Inr d))"

definition encryptBackup ::
  "nodeLib \<Rightarrow> buffer \<Rightarrow> string \<Rightarrow> buffer \<Rightarrow> string \<Rightarrow> error + string" where
  "encryptBackup L iv data key salt =
     (let compressed = compress L data in
      case encrypt L iv compressed key of
        Inl e \<Rightarrow> Inl e
      | Inr encrypted \<Rightarrow>
          let saltBuffer = base64_decode L salt;
              withSalt = saltBuffer @ encrypted
          in Inr (base64_encode L withSalt))"

definition extractSaltFromBackup :: "nodeLib \<Rightarrow> string \<Rightarrow> string" where
  "extractSaltFromBackup L encryptedBase64 =
     (let data = base64_decode L encryptedBase64;
          saltBuffer = take SALT_LENGTH data
      in base64_encode L saltBuffer)"

definition decryptBackup :: "nodeLib \<Rightarrow> string \<Rightarrow> buffer \<Rightarrow> error + string" where
  "decryptBackup L encryptedBase64 key =
     (let data = base64_decode L encryptedBase64;
          encrypted = drop SALT_LENGTH data
      in case decrypt L encrypted key of
           Inl e \<Rightarrow> Inl e
         | Inr decrypted \<Rightarrow> decompress L decrypted)"


text \<open>\<open>generateSalt\<close>: the base64 text of \<open>crypto.randomBytes(SALT_LENGTH)\<close>.\<close>

definition generateSalt :: "nodeLib \<Rightarrow> buffer \<Rightarrow> string" where
  "generateSalt L randomBytes = base64_encode L randomBytes"

section \<open>Filesystem scanner (core/scanner.ts)\<close>

text \<open>
  The module is lines 1 to 227 of \<open>src/cli/src/core/scanner.ts\<close>.
  Strings are byte strings (UTF-8). An absolute, normalised POSIX path is the list of its
  components, \<open>[]\<close> being the root \<open>/\<close>. \<open>path_join base rel\<close> is Node's
  \<open>path.join(base, rel)\<close> for such a base: the two are joined with a slash and normalised,
  so empty and \<open>.\<close> segments vanish and a \<open>..\<close> segment removes the component before
  it (at the root it is dropped). A trailing slash is not kept.
\<close>

type_synonym path = "string list"

fun split_slash :: "string \<Rightarrow> string list" where
  "split_slash [] = [[]]"
| "split_slash (c # cs) =
     (if c = CHR ''/'' then [] # split_slash cs
      else (case split_slash cs of s # ss \<Rightarrow> (c # s) # ss | [] \<Rightarrow> [[c]]))"

definition path_step :: "path \<Rightarrow> string \<Rightarrow> path" where
  "path_step stack seg =
     (if seg = [] \<or> seg = ''.'' then stack
      else if seg = ''..'' then butlast stack
      else stack @ [seg])"

definition path_join :: "path \<Rightarrow> string \<Rightarrow> path" where
  "path_join base rel = foldl path_step base (split_slash rel)"

text \<open>
  The directory tree the scanner reads. A file carries its content, \<open>None\<close> when reading it
  fails; a directory carries whether \<open>readdir\<close> succeeds on it and its entries in
  \<open>readdir\<close> order; \<open>Other\<close> is an entry that is neither (\<open>isFile()\<close> and
  \<open>isDirectory()\<close> both false).
\<close>

datatype fsnode = File "string option" | Dir bool "(string \<times> fsnode) list" | Other

fun isFile :: "fsnode \<Rightarrow> bool" where
  "isFile (File c) = True"
| "isFile n = False"

fun isDirectory :: "fsnode \<Rightarrow> bool" where
  "isDirectory (Dir r es) = True"
| "isDirectory n = False"

fun entries_of :: "fsnode \<Rightarrow> (string \<times> fsnode) list" where
  "entries_of (Dir r es) = es"
| "entries_of n = []"

definition PROJECT_MARKERS :: "string list" where
  "PROJECT_MARKERS =
     [''.git'', ''package.json'', ''pyproject.toml'', ''go.mod'', ''Cargo.toml'', ''composer.json'']"

definition SKIP_DIRS :: "string set" where
  "SKIP_DIRS =
     {''node_modules'', ''.git'', ''vendor'', ''dist'', ''build'', ''.next'', ''.nuxt'',
      ''__pycache__'', ''.venv'', ''venv'', ''target'', ''.cargo''}"

text \<open>
  \<open>ENV_PATTERNS\<close> are \<open>/^\.env$/\<close> and \<open>/^\.env\..+$/\<close>; the dot of a regular expression
  matches every character but the line terminators (LF, CR, U+2028, U+2029).
\<close>

fun has_line_terminator :: "string \<Rightarrow> bool" where
  "has_line_terminator [] = False"
| "has_line_terminator (c # cs) =
     (c = CHR 0x0A \<or> c = CHR 0x0D \<or>
      (c = CHR 0xE2 \<and> (take 2 cs = [CHR 0x80, CHR 0xA8] \<or> take 2 cs = [CHR 0x80, CHR 0xA9])) \<or>
      has_line_terminator cs)"

definition isEnvFile :: "string \<Rightarrow> bool" where
  "isEnvFile filename \<longleftrightarrow>
     filename = ''.env'' \<or>
     (take 5 filename = ''.env.'' \<and> drop 5 filename \<noteq> [] \<and> \<not> has_line_terminator (drop 5 filename))"

definition startsWith :: "string \<Rightarrow> string \<Rightarrow> bool" where
  "startsWith s pre \<longleftrightarrow> take (length pre) s = pre"

record EnvFile =
  filename :: string
  checksum :: string
  content :: string

datatype source = Git | Package | Folder

text \<open>
  A project of the backup document has the fields \<open>id\<close> (here \<open>project_id\<close>), \<open>name\<close>,
  \<open>git\<close>, \<open>fingerprint\<close>, \<open>path\<close> and \<open>envs\<close>; a scanned \<open>Project\<close> has two more.
\<close>

record BackupProject =
  project_id :: string
  name :: string
  git :: "string option"
  fingerprint :: string
  path :: path
  envs :: "EnvFile list"

record Project = BackupProject +
  fingerprintSource :: source
  fingerprintValue :: string

text \<open>
  The scanner's imports that are not part of the sources at hand (\<open>fingerprint.ts\<close>,
  \<open>uuid\<close>, Node's SHA-256) are the fields of \<open>scanLib\<close>. The fingerprint functions read the
  project directory, so they take its path and its node, and they are taken to return;
  \<open>uuidv4\<close> is indexed by the number of identifiers drawn before.
\<close>

record scanLib =
  generateFingerprint :: "path \<Rightarrow> fsnode \<Rightarrow> string \<times> source \<times> string"
  getProjectName :: "path \<Rightarrow> fsnode \<Rightarrow> string"
  getGitRemoteUrl :: "path \<Rightarrow> fsnode \<Rightarrow> string option"
  uuidv4 :: "nat \<Rightarrow> string"
  sha256 :: "string \<Rightarrow> string"

text \<open>
  Modelled from the spec: \<open>pathExists\<close> of \<open>utils/fs.ts\<close> is not among the sources. A
  marker is present in a directory when the directory has an entry of that name, whatever
  its kind and whether or not the directory can be listed.
\<close>

definition markerExists :: "fsnode \<Rightarrow> string \<Rightarrow> bool" where
  "markerExists dir marker \<longleftrightarrow> marker \<in> fst ` set (entries_of dir)"

definition isProjectRoot :: "fsnode \<Rightarrow> bool" where
  "isProjectRoot dir \<longleftrightarrow> list_ex (markerExists dir) PROJECT_MARKERS"

definition join_rel :: "string \<Rightarrow> string \<Rightarrow> string" where
  "join_rel pre entryName = (if pre = [] then entryName else pre @ ''/'' @ entryName)"

text \<open>
  \<open>findEnvFiles\<close>: the inner \<open>scanDir\<close> with its \<open>for\<close> loop, pushing onto \<open>envFiles\<close>.
  A \<open>readdir\<close> or a read that throws is caught and skipped.
\<close>

fun scanDir :: "scanLib \<Rightarrow> fsnode \<Rightarrow> string \<Rightarrow> EnvFile list \<Rightarrow> EnvFile list"
  and scanDir_loop :: "scanLib \<Rightarrow> (string \<times> fsnode) list \<Rightarrow> string \<Rightarrow> EnvFile list \<Rightarrow> EnvFile list"
  where
  "scanDir D (Dir readable entries) pre envFiles =
     (if readable then scanDir_loop D entries pre envFiles else envFiles)"
| "scanDir D (File c) pre envFiles = envFiles"
| "scanDir D Other pre envFiles = envFiles"
| "scanDir_loop D [] pre envFiles = envFiles"
| "scanDir_loop D ((entryName, entry) # rest) pre envFiles =
     scanDir_loop D rest pre
       (if isFile entry \<and> isEnvFile entryName then
          (case entry of
             File (Some c) \<Rightarrow>
               envFiles @ [\<lparr>filename = join_rel pre entryName, checksum = sha256 D c, content = c\<rparr>]
           | _ \<Rightarrow> envFiles)
        else if isDirectory entry \<and> entryName \<notin> SKIP_DIRS \<and> \<not> startsWith entryName ''.'' then
          scanDir D entry (join_rel pre entryName) envFiles
        else envFiles)"

definition findEnvFiles :: "scanLib \<Rightarrow> fsnode \<Rightarrow> EnvFile list" where
  "findEnvFiles D project = scanDir D project [] []"

record ScanResult =
  projects :: "Project list"
  totalEnvFiles :: nat

definition pushProject :: "scanLib \<Rightarrow> path \<Rightarrow> fsnode \<Rightarrow> ScanResult \<Rightarrow> ScanResult" where
  "pushProject D dirPath dir st =
     (let fp = generateFingerprint D dirPath dir;
          found = findEnvFiles D dir
      in st\<lparr>projects := projects st @
              [\<lparr>project_id = uuidv4 D (length (projects st)),
                name = getProjectName D dirPath dir,
                git = getGitRemoteUrl D dirPath dir,
                fingerprint = fst fp,
                path = dirPath,
                envs = found,
                fingerprintSource = fst (snd fp),
                fingerprintValue = snd (snd fp)\<rparr>],
            totalEnvFiles := totalEnvFiles st + length found\<rparr>)"

text \<open>The inner \<open>scan\<close> of \<open>scanDirectory\<close> and its loop over the entries.\<close>

fun scan :: "scanLib \<Rightarrow> path \<Rightarrow> fsnode \<Rightarrow> ScanResult \<Rightarrow> ScanResult"
  and scan_loop :: "scanLib \<Rightarrow> path \<Rightarrow> (string \<times> fsnode) list \<Rightarrow> ScanResult \<Rightarrow> ScanResult"
  where
  "scan D dirPath (Dir readable entries) st =
     (if isProjectRoot (Dir readable entries) then pushProject D dirPath (Dir readable entries) st
      else if readable then scan_loop D dirPath entries st
      else st)"
| "scan D dirPath (File c) st = st"
| "scan D dirPath Other st = st"
| "scan_loop D dirPath [] st = st"
| "scan_loop D dirPath ((entryName, entry) # rest) st =
     scan_loop D dirPath rest
       (if isDirectory entry \<and> entryName \<notin> SKIP_DIRS \<and> \<not> startsWith entryName ''.'' then
          scan D (path_join dirPath entryName) entry st
        else st)"

text \<open>The loop of \<open>scanDirectory\<close> over the entries of the root.\<close>

fun root_loop :: "scanLib \<Rightarrow> path \<Rightarrow> (string \<times> fsnode) list \<Rightarrow> ScanResult \<Rightarrow> ScanResult" where
  "root_loop D rootPath [] st = st"
| "root_loop D rootPath ((entryName, entry) # rest) st =
     root_loop D rootPath rest
       (if isDirectory entry \<and> entryName \<notin> SKIP_DIRS then
          scan D (path_join rootPath entryName) entry st
        else st)"

definition scanDirectory :: "scanLib \<Rightarrow> path \<Rightarrow> fsnode \<Rightarrow> ScanResult" where
  "scanDirectory D rootPath root =
     (let st = \<lparr>projects = [], totalEnvFiles = 0\<rparr> in
      if isProjectRoot root then pushProject D rootPath root st
      else (case root of
              Dir readable entries \<Rightarrow> (if readable then root_loop D rootPath entries st else st)
            | _ \<Rightarrow> st))"

text \<open>\<open>buildFingerprintMap\<close>: a JavaScript \<open>Map\<close>, filled by \<open>set\<close> in list order.\<close>

fun fingerprint_loop :: "Project list \<Rightarrow> (string \<rightharpoonup> path) \<Rightarrow> (string \<rightharpoonup> path)" where
  "fingerprint_loop [] m = m"
| "fingerprint_loop (project # rest) m = fingerprint_loop rest (m(fingerprint project \<mapsto> path project))"

definition buildFingerprintMap :: "Project list \<Rightarrow> (string \<rightharpoonup> path)" where
  "buildFingerprintMap ps = fingerprint_loop ps Map.empty"

section \<open>Restore (commands/restore.ts)\<close>

text \<open>
  The module is lines 1 to 246 of \<open>src/unnamed/part_000\<close>. The field \<open>projects\<close> of the
  backup document is \<open>blob_projects\<close> here.
\<close>

record RestoreOptions =
  dev :: bool
  force :: bool

record BackupBlob =
  version :: nat
  createdAt :: string
  deviceId :: string
  blob_projects :: "BackupProject list"

record RestoreStats =
  restored :: nat
  skipped :: nat
  failed :: nat

record MatchedProject =
  backupProject :: BackupProject
  localPath :: path

text \<open>
  Modelled from the spec: \<open>pathExists\<close> and \<open>writeFileContent\<close> of \<open>utils/fs.ts\<close> are not
  among the sources. The local filesystem the restore writes to maps a path to the content
  and permission bits of the file there; \<open>write_fails\<close> holds of the destinations at which a
  write throws (an unwritable directory, say). A write that succeeds stores the content with
  the permission bits it is given; intermediate directories are implicit in the path.
\<close>

record LocalFile =
  file_content :: string
  file_mode :: nat

record LocalFs =
  files :: "path \<rightharpoonup> LocalFile"
  write_fails :: "path \<Rightarrow> bool"

datatype ioError = IOError

definition pathExists :: "LocalFs \<Rightarrow> path \<Rightarrow> bool" where
  "pathExists fs p \<longleftrightarrow> files fs p \<noteq> None"

definition writeFileContent :: "LocalFs \<Rightarrow> path \<Rightarrow> string \<Rightarrow> nat \<Rightarrow> ioError + LocalFs" where
  "writeFileContent fs p c m =
     (if write_fails fs p then Inl IOError
      else Inr (fs\<lparr>files := (files fs)(p \<mapsto> \<lparr>file_content = c, file_mode = m\<rparr>)\<rparr>))"

definition mode_0o600 :: nat where
  "mode_0o600 = 6 * 8 ^ 2"

text \<open>
  The text of a path, as the string \<open>localPath\<close> is in the source. It is never empty, so the
  test \<open>if (localPath)\<close> of the matching loop holds of every path found in the map.
\<close>

definition path_text :: "path \<Rightarrow> string" where
  "path_text p = (if p = [] then ''/'' else concat (map (\<lambda>seg. ''/'' @ seg) p))"

text \<open>The matching loop: \<open>matched\<close> and \<open>unmatched\<close> are pushed onto in list order.\<close>

fun match_loop ::
  "(string \<rightharpoonup> path) \<Rightarrow> BackupProject list \<Rightarrow> MatchedProject list \<times> BackupProject list \<Rightarrow>
   MatchedProject list \<times> BackupProject list" where
  "match_loop fingerprintMap [] (matched, unmatched) = (matched, unmatched)"
| "match_loop fingerprintMap (project # rest) (matched, unmatched) =
     match_loop fingerprintMap rest
       (case fingerprintMap (fingerprint project) of
          Some lp \<Rightarrow>
            (if path_text lp \<noteq> [] then (matched @ [\<lparr>backupProject = project, localPath = lp\<rparr>], unmatched)
             else (matched, unmatched @ [project]))
        | None \<Rightarrow> (matched, unmatched @ [project]))"

datatype restoreStatus = Restored | Skipped | Failed

text \<open>
  The state of the restore loops: the local filesystem, the counters and the lines given to
  \<open>logger.restoreItem\<close>.
\<close>

record RestoreState =
  localFs :: LocalFs
  stats :: RestoreStats
  items :: "(string \<times> restoreStatus) list"

definition restore_file ::
  "RestoreOptions \<Rightarrow> BackupProject \<Rightarrow> path \<Rightarrow> EnvFile \<Rightarrow> RestoreState \<Rightarrow> RestoreState" where
  "restore_file options bp lp envFile st =
     (let filePath = path_join lp (filename envFile);
          relativePath = name bp @ ''/'' @ filename envFile
      in if pathExists (localFs st) filePath \<and> \<not> force options then
           st\<lparr>stats := (stats st)\<lparr>skipped := skipped (stats st) + 1\<rparr>,
              items := items st @ [(relativePath, Skipped)]\<rparr>
         else
           (case writeFileContent (localFs st) filePath (content envFile) mode_0o600 of
              Inr fs' \<Rightarrow>
                st\<lparr>localFs := fs',
                   stats := (stats st)\<lparr>restored := restored (stats st) + 1\<rparr>,
                   items := items st @ [(relativePath, Restored)]\<rparr>
            | Inl e \<Rightarrow>
                st\<lparr>stats := (stats st)\<lparr>failed := failed (stats st) + 1\<rparr>,
                   items := items st @ [(relativePath, Failed)]\<rparr>))"

fun restore_files ::
  "RestoreOptions \<Rightarrow> BackupProject \<Rightarrow> path \<Rightarrow> EnvFile list \<Rightarrow> RestoreState \<Rightarrow> RestoreState" where
  "restore_files options bp lp [] st = st"
| "restore_files options bp lp (envFile # rest) st =
     restore_files options bp lp rest (restore_file options bp lp envFile st)"

fun restore_projects :: "RestoreOptions \<Rightarrow> MatchedProject list \<Rightarrow> RestoreState \<Rightarrow> RestoreState" where
  "restore_projects options [] st = st"
| "restore_projects options (m # rest) st =
     restore_projects options rest
       (restore_files options (backupProject m) (localPath m) (envs (backupProject m)) st)"

record RestoreOutcome =
  matched :: "MatchedProject list"
  unmatched :: "BackupProject list"
  final :: RestoreState

text \<open>
  \<open>restoreCommand\<close> from the decoded backup document on: the scan of the working directory,
  the matching and the restore loops. With no match it returns before the loops.
\<close>

definition restoreCommand ::
  "scanLib \<Rightarrow> RestoreOptions \<Rightarrow> BackupBlob \<Rightarrow> path \<Rightarrow> fsnode \<Rightarrow> LocalFs \<Rightarrow> RestoreOutcome" where
  "restoreCommand D options blob cwd tree fs =
     (let localProjects = projects (scanDirectory D cwd tree);
          fingerprintMap = buildFingerprintMap localProjects;
          (matched, unmatched) = match_loop fingerprintMap (blob_projects blob) ([], []);
          st = \<lparr>localFs = fs, stats = \<lparr>restored = 0, skipped = 0, failed = 0\<rparr>, items = []\<rparr>
      in if length matched = 0 then \<lparr>matched = matched, unmatched = unmatched, final = st\<rparr>
         else \<lparr>matched = matched, unmatched = unmatched,
               final = restore_projects options matched st\<rparr>)"

section \<open>Vocabulary of the statements\<close>

subsection \<open>What the library calls are taken to do\<close>

text \<open>
  \<open>lib_inverses\<close>: decoding undoes encoding for base64 and gzip; under a key of
  \<open>KEY_LENGTH\<close> bytes and a nonce of \<open>IV_LENGTH\<close> bytes the cipher seals, and opening what it
  sealed gives the data back; a tag has \<open>AUTH_TAG_LENGTH\<close> bytes (the \<open>authTagLength\<close>
  option).
\<close>

definition lib_inverses :: "nodeLib \<Rightarrow> bool" where
  "lib_inverses L \<longleftrightarrow>
     (\<forall>bs. base64_decode L (base64_encode L bs) = bs) \<and>
     (\<forall>bs. zlib_gunzip L (zlib_gzip L bs) = Some bs) \<and>
     (\<forall>key iv d. length key = KEY_LENGTH \<and> length iv = IV_LENGTH \<longrightarrow>
        (\<exists>ct tag. gcm_seal L key iv d = Some (ct, tag) \<and> gcm_open L key iv ct tag = Some d)) \<and>
     (\<forall>key iv d ct tag. gcm_seal L key iv d = Some (ct, tag) \<longrightarrow> length tag = AUTH_TAG_LENGTH)"

text \<open>
  \<open>gcm_rejects_flips\<close>: the cipher refuses a nonce, ciphertext and tag that differ in
  exactly one byte from a triple it sealed under the same key. This is the integrity
  guarantee of the authenticated cipher, taken as exact.
\<close>

definition gcm_rejects_flips :: "nodeLib \<Rightarrow> bool" where
  "gcm_rejects_flips L \<longleftrightarrow>
     (\<forall>key iv d ct tag iv' ct' tag' j b.
        gcm_seal L key iv d = Some (ct, tag) \<and>
        length iv' = length iv \<and> length ct' = length ct \<and> length tag' = length tag \<and>
        j < length (iv @ ct @ tag) \<and> b \<noteq> (iv @ ct @ tag) ! j \<and>
        iv' @ ct' @ tag' = (iv @ ct @ tag)[j := b] \<longrightarrow>
        gcm_open L key iv' ct' tag' = None)"

text \<open>\<open>tamper L i b envelope\<close>: the envelope with byte \<open>i\<close> of its decoded form set to \<open>b\<close>.\<close>

definition tamper :: "nodeLib \<Rightarrow> nat \<Rightarrow> byte \<Rightarrow> string \<Rightarrow> string" where
  "tamper L i b envelope = base64_encode L ((base64_decode L envelope)[i := b])"

subsection \<open>Directory trees\<close>

text \<open>
  A name a directory entry can have, and a tree whose directories list such names, each
  once.
\<close>

definition valid_name :: "string \<Rightarrow> bool" where
  "valid_name n \<longleftrightarrow> n \<noteq> [] \<and> CHR ''/'' \<notin> set n \<and> n \<noteq> ''.'' \<and> n \<noteq> ''..''"

fun wf_node :: "fsnode \<Rightarrow> bool" and wf_entries :: "(string \<times> fsnode) list \<Rightarrow> bool" where
  "wf_node (Dir r es) = (distinct (map fst es) \<and> wf_entries es)"
| "wf_node (File c) = True"
| "wf_node Other = True"
| "wf_entries [] = True"
| "wf_entries ((n, c) # rest) = (valid_name n \<and> wf_node c \<and> wf_entries rest)"

text \<open>
  \<open>walk n ds m\<close>: reading directory \<open>n\<close> and then the directories named \<open>ds\<close> one after
  the other, each readable, leads to the node \<open>m\<close>.
\<close>

inductive walk :: "fsnode \<Rightarrow> string list \<Rightarrow> fsnode \<Rightarrow> bool" where
  stay: "walk n [] n"
| step: "(d, c) \<in> set es \<Longrightarrow> walk c ds m \<Longrightarrow> walk (Dir True es) (d # ds) m"

text \<open>
  \<open>finds n ds pn\<close>: the descent of \<open>scan\<close> from \<open>n\<close> through the directories \<open>ds\<close>,
  none a project root, none skipped, ends at the project root \<open>pn\<close>. \<open>finds_top\<close> is the
  same for \<open>scanDirectory\<close>, whose first level has its own loop.
\<close>

inductive finds :: "fsnode \<Rightarrow> string list \<Rightarrow> fsnode \<Rightarrow> bool" where
  found: "isProjectRoot n \<Longrightarrow> finds n [] n"
| descend: "\<not> isProjectRoot (Dir True es) \<Longrightarrow> (d, c) \<in> set es \<Longrightarrow> isDirectory c \<Longrightarrow>
            d \<notin> SKIP_DIRS \<Longrightarrow> \<not> startsWith d ''.'' \<Longrightarrow> finds c ds pn \<Longrightarrow>
            finds (Dir True es) (d # ds) pn"

definition finds_top :: "fsnode \<Rightarrow> string list \<Rightarrow> fsnode \<Rightarrow> bool" where
  "finds_top root ds pn \<longleftrightarrow>
     (isProjectRoot root \<and> ds = [] \<and> pn = root) \<or>
     (\<not> isProjectRoot root \<and>
      (\<exists>es d c ds'. root = Dir True es \<and> (d, c) \<in> set es \<and> isDirectory c \<and> d \<notin> SKIP_DIRS \<and>
         finds c ds' pn \<and> ds = d # ds'))"

text \<open>
  The env files below a node: the places \<open>(ds, nm, c)\<close> where a readable file named
  \<open>nm\<close>, an env file name, with content \<open>c\<close> is reached through directories \<open>ds\<close> that
  are neither on the deny-list nor hidden, and the \<open>EnvFile\<close> entries made of them.
\<close>

definition mkEnv :: "scanLib \<Rightarrow> string \<Rightarrow> string list \<Rightarrow> string \<Rightarrow> string \<Rightarrow> EnvFile" where
  "mkEnv D pre ds nm c = \<lparr>filename = foldl join_rel pre (ds @ [nm]), checksum = sha256 D c, content = c\<rparr>"

definition env_locs :: "fsnode \<Rightarrow> (string list \<times> string \<times> string) set" where
  "env_locs n = {(ds, nm, c). walk n (ds @ [nm]) (File (Some c)) \<and>
                   (\<forall>d \<in> set ds. d \<notin> SKIP_DIRS \<and> \<not> startsWith d ''.'') \<and> isEnvFile nm}"

definition env_set :: "scanLib \<Rightarrow> string \<Rightarrow> fsnode \<Rightarrow> EnvFile set" where
  "env_set D pre n = (\<lambda>(ds, nm, c). mkEnv D pre ds nm c) ` env_locs n"

definition located :: "scanLib \<Rightarrow> path \<Rightarrow> Project \<Rightarrow> string list \<Rightarrow> fsnode \<Rightarrow> bool" where
  "located D dp p ds pn \<longleftrightarrow> path p = foldl path_join dp ds \<and> envs p = findEnvFiles D pn"

subsection \<open>The restore loops as one pass\<close>

text \<open>
  \<open>work_list\<close>: the env files of the matched projects in the order the two nested loops
  visit them; \<open>restore_step\<close>: the loop body on one of them; \<open>destination\<close>: where it is
  written; \<open>counted\<close>: the sum of the three counters.
\<close>

definition work_list :: "MatchedProject list \<Rightarrow> (MatchedProject \<times> EnvFile) list" where
  "work_list ms = concat (map (\<lambda>m. map (Pair m) (envs (backupProject m))) ms)"

definition restore_step :: "RestoreOptions \<Rightarrow> RestoreState \<Rightarrow> MatchedProject \<times> EnvFile \<Rightarrow> RestoreState" where
  "restore_step options st w =
     restore_file options (backupProject (fst w)) (localPath (fst w)) (snd w) st"

definition destination :: "MatchedProject \<times> EnvFile \<Rightarrow> path" where
  "destination w = path_join (localPath (fst w)) (filename (snd w))"

definition counted :: "RestoreStats \<Rightarrow> nat" where
  "counted s = restored s + skipped s + failed s"

section \<open>Reference inputs\<close>

text \<open>
  A small instance of the library interface, on which the statements are evaluated: bytes
  and characters correspond one to one, compression prefixes the two magic bytes of gzip,
  the cipher adds the sum of the key bytes to every byte and its tag makes nonce,
  ciphertext and tag sum up to the sum of the key bytes.
\<close>

definition toy_byte_of_char :: "char \<Rightarrow> byte" where
  "toy_byte_of_char c = of_nat (of_char c)"

definition toy_char_of_byte :: "byte \<Rightarrow> char" where
  "toy_char_of_byte b = char_of (unat b)"

definition toy_seal :: "buffer \<Rightarrow> buffer \<Rightarrow> buffer \<Rightarrow> (buffer \<times> buffer) option" where
  "toy_seal key iv d =
     (if length key = 32 \<and> length iv = 12
      then let ct = map (\<lambda>b. b + sum_list key) d
           in Some (ct, replicate 15 0 @ [sum_list key - sum_list (iv @ ct)])
      else None)"

definition toy_open :: "buffer \<Rightarrow> buffer \<Rightarrow> buffer \<Rightarrow> buffer \<Rightarrow> buffer option" where
  "toy_open key iv ct tag =
     (if length key = 32 \<and> length iv = 12 \<and> length tag = 16 \<and>
         sum_list (iv @ ct @ tag) = sum_list key
      then Some (map (\<lambda>b. b - sum_list key) ct)
      else None)"

definition toyLib :: nodeLib where
  "toyLib = \<lparr>
     utf8_encode = map toy_byte_of_char,
     utf8_decode = map toy_char_of_byte,
     base64_encode = map toy_char_of_byte,
     base64_decode = map toy_byte_of_char,
     zlib_gzip = (\<lambda>bs. 31 # 139 # bs),
     zlib_gunzip = (\<lambda>bs. case bs of a # b # r \<Rightarrow> (if a = 31 \<and> b = 139 then Some r else None) | _ \<Rightarrow> None),
     gcm_seal = toy_seal,
     gcm_open = toy_open \<rparr>"

definition example_key :: buffer where "example_key = replicate 32 1"

definition example_iv :: buffer where "example_iv = replicate 12 2"

definition example_salt :: string where "example_salt = generateSalt toyLib (replicate 32 3)"

definition example_envelope :: string where
  "example_envelope =
     (case encryptBackup toyLib example_iv ''KEY=1'' example_key example_salt of
        Inr e \<Rightarrow> e | Inl _ \<Rightarrow> [])"

definition short_salt :: string where
  "short_salt = generateSalt toyLib (replicate 16 3)"

text \<open>
  An instance of the scanner's imports: the fingerprint of a directory is made of its folder
  name.
\<close>

definition exampleLib :: scanLib where
  "exampleLib =
     \<lparr>generateFingerprint = (\<lambda>p dir. (''fp:'' @ (if p = [] then [] else last p), Folder, (if p = [] then [] else last p))),
      getProjectName = (\<lambda>p dir. if p = [] then [] else last p),
      getGitRemoteUrl = (\<lambda>p dir. None),
      uuidv4 = (\<lambda>n. replicate n CHR ''i''),
      sha256 = (\<lambda>c. ''sha:'' @ c)\<rparr>"

definition manifest :: "string \<times> fsnode" where
  "manifest = (''package.json'', File (Some ''{}''))"

definition web_node :: fsnode where
  "web_node = Dir True [manifest, (''.env.local'', File (Some ''WEB=1''))]"

definition api_node :: fsnode where
  "api_node =
     Dir True
       [manifest,
        (''.env'', File (Some ''KEY=1'')),
        (''packages'', Dir True [(''web'', web_node)]),
        (''node_modules'', Dir True [(''.env'', File (Some ''DEP=1''))])]"

definition lib_node :: fsnode where
  "lib_node = Dir True [manifest, (''.env'', File (Some ''LIB=1''))]"

definition work_tree :: fsnode where
  "work_tree =
     Dir True
       [(''api'', api_node),
        (''node_modules'', Dir True
           [(''lib'', Dir True [manifest, (''.env'', File (Some ''LIB=1''))])]),
        (''notes'', Dir True
           [(''tools'', Dir True [(''go.mod'', File (Some ''module tools''))])])]"

definition hidden_tree :: fsnode where
  "hidden_tree =
     Dir True
       [(''.hidden'', Dir True [manifest, (''.env'', File (Some ''SECRET=1''))])]"

definition nested_hidden_tree :: fsnode where
  "nested_hidden_tree = Dir True [(''sub'', hidden_tree)]"

text \<open>The two projects of \<open>work_tree\<close>, and a second checkout of the first.\<close>

definition api_project :: Project where
  "api_project =
     \<lparr>project_id = [], name = ''api'', git = None, fingerprint = ''fp:api'',
      path = [''home'', ''u'', ''api''],
      envs = [\<lparr>filename = ''.env'', checksum = ''sha:KEY=1'', content = ''KEY=1''\<rparr>,
              \<lparr>filename = ''packages/web/.env.local'', checksum = ''sha:WEB=1'', content = ''WEB=1''\<rparr>],
      fingerprintSource = Folder, fingerprintValue = ''api''\<rparr>"

definition tools_project :: Project where
  "tools_project =
     \<lparr>project_id = ''i'', name = ''tools'', git = None, fingerprint = ''fp:tools'',
      path = [''home'', ''u'', ''notes'', ''tools''], envs = [],
      fingerprintSource = Folder, fingerprintValue = ''tools''\<rparr>"

definition api_clone :: Project where
  "api_clone = api_project\<lparr>path := [''home'', ''u'', ''api-clone'']\<rparr>"

text \<open>A backup document, the local files before the restore and the start of the loops.\<close>

definition env_skip :: EnvFile where
  "env_skip = \<lparr>filename = ''.env'', checksum = ''sha:KEY=1'', content = ''KEY=1''\<rparr>"

definition env_fail :: EnvFile where
  "env_fail = \<lparr>filename = ''.env.test'', checksum = ''sha:T=3'', content = ''T=3''\<rparr>"

definition env_new :: EnvFile where
  "env_new = \<lparr>filename = ''config/.env.local'', checksum = ''sha:B=2'', content = ''B=2''\<rparr>"

definition env_escape :: EnvFile where
  "env_escape = \<lparr>filename = ''../other/.env'', checksum = ''sha:PWNED=1'', content = ''PWNED=1''\<rparr>"

definition api_backup :: BackupProject where
  "api_backup =
     \<lparr>project_id = ''b1'', name = ''api'', git = None, fingerprint = ''fp:api'',
      path = [''Users'', ''me'', ''api''], envs = [env_skip, env_fail, env_new]\<rparr>"

definition gone_backup :: BackupProject where
  "gone_backup =
     \<lparr>project_id = ''b2'', name = ''gone'', git = None, fingerprint = ''fp:gone'',
      path = [''Users'', ''me'', ''gone''], envs = [env_skip]\<rparr>"

definition escape_backup :: BackupProject where
  "escape_backup = api_backup\<lparr>envs := [env_escape]\<rparr>"

definition example_blob :: BackupBlob where
  "example_blob = \<lparr>version = 1, createdAt = ''2026-01-17T12:00:00Z'', deviceId = ''dev-1'',
                    blob_projects = [api_backup, gone_backup]\<rparr>"

definition escape_blob :: BackupBlob where
  "escape_blob = example_blob\<lparr>blob_projects := [escape_backup]\<rparr>"

definition no_force :: RestoreOptions where
  "no_force = \<lparr>dev = False, force = False\<rparr>"

definition example_fs :: LocalFs where
  "example_fs =
     \<lparr>files = [[''home'', ''u'', ''api'', ''.env''] \<mapsto> \<lparr>file_content = ''OLD=0'', file_mode = 420\<rparr>],
      write_fails = (\<lambda>p. p = [''home'', ''u'', ''api'', ''.env.test''])\<rparr>"

definition example_start :: RestoreState where
  "example_start = \<lparr>localFs = example_fs, stats = \<lparr>restored = 0, skipped = 0, failed = 0\<rparr>, items = []\<rparr>"

definition api_match :: MatchedProject where
  "api_match = \<lparr>backupProject = api_backup, localPath = [''home'', ''u'', ''api'']\<rparr>"

section \<open>The envelope: lemmas\<close>

lemma decrypt_append:
  assumes "length iv = IV_LENGTH" "length tag = AUTH_TAG_LENGTH"
  shows "decrypt L (iv @ ct @ tag) key =
         (case gcm_open L key iv ct tag of None \<Rightarrow> Inl CipherError | Some d \<Rightarrow> Inr d)"
  using assms by (simp add: decrypt_def Let_def)

lemma encryptBackup_Inr:
  assumes "encryptBackup L iv p key salt = Inr env"
  obtains ct tag where "gcm_seal L key iv (compress L p) = Some (ct, tag)"
    and "env = base64_encode L (base64_decode L salt @ iv @ ct @ tag)"
  using assms
  by (auto simp: encryptBackup_def encrypt_def Let_def split: option.splits sum.splits)

lemma decryptBackup_envelope:
  assumes b64: "\<forall>bs. base64_decode L (base64_encode L bs) = bs"
    and "length s = SALT_LENGTH"
  shows "decryptBackup L (base64_encode L (s @ body)) key =
         (case decrypt L body key of Inl e \<Rightarrow> Inl e | Inr d \<Rightarrow> decompress L d)"
  using assms by (simp add: decryptBackup_def Let_def)

lemma decryptBackup_sealed:
  assumes lib: "lib_inverses L"
    and utf8: "utf8_decode L (utf8_encode L p) = p"
    and iv: "length iv = IV_LENGTH"
    and s: "length s = SALT_LENGTH"
    and seal: "gcm_seal L key iv (compress L p) = Some (ct, tag)"
    and opn: "gcm_open L key iv ct tag = Some (compress L p)"
  shows "decryptBackup L (base64_encode L (s @ iv @ ct @ tag)) key = Inr p"
proof -
  from lib seal have tag: "length tag = AUTH_TAG_LENGTH"
    unfolding lib_inverses_def by blast
  from lib have b64: "\<forall>bs. base64_decode L (base64_encode L bs) = bs"
    and gz: "\<forall>bs. zlib_gunzip L (zlib_gzip L bs) = Some bs"
    unfolding lib_inverses_def by blast+
  have "decrypt L (iv @ ct @ tag) key = Inr (compress L p)"
    using opn iv tag by (simp add: decrypt_append)
  moreover have "decompress L (compress L p) = Inr p"
    using gz utf8 by (simp add: decompress_def compress_def)
  ultimately show ?thesis
    using b64 s by (simp add: decryptBackup_envelope)
qed

lemma tamper_in_salt:
  assumes b64: "\<forall>bs. base64_decode L (base64_encode L bs) = bs"
    and "i < SALT_LENGTH"
  shows "decryptBackup L (tamper L i b env) key = decryptBackup L env key"
  using assms by (simp add: decryptBackup_def tamper_def Let_def drop_update_cancel)

lemma split_encrypted:
  assumes "IV_LENGTH + AUTH_TAG_LENGTH \<le> length m"
  shows "take IV_LENGTH m @ drop IV_LENGTH (take (length m - AUTH_TAG_LENGTH) m) @
         drop (length m - AUTH_TAG_LENGTH) m = m"
proof -
  let ?k = "length m - AUTH_TAG_LENGTH"
  have "take IV_LENGTH m = take IV_LENGTH (take ?k m)"
    using assms by (simp add: min_def)
  then have "take IV_LENGTH m @ drop IV_LENGTH (take ?k m) = take ?k m"
    by (metis append_take_drop_id)
  then show ?thesis
    by (metis append.assoc append_take_drop_id)
qed

lemma tamper_after_salt:
  assumes b64: "\<forall>bs. base64_decode L (base64_encode L bs) = bs"
    and rej: "gcm_rejects_flips L"
    and iv: "length iv = IV_LENGTH"
    and s: "length s = SALT_LENGTH"
    and seal: "gcm_seal L key iv d = Some (ct, tag)"
    and tag: "length tag = AUTH_TAG_LENGTH"
    and i: "SALT_LENGTH \<le> i" "i < length (s @ iv @ ct @ tag)"
    and b: "b \<noteq> (s @ iv @ ct @ tag) ! i"
  shows "decryptBackup L (tamper L i b (base64_encode L (s @ iv @ ct @ tag))) key = Inl CipherError"
proof -
  let ?m = "iv @ ct @ tag"
  let ?j = "i - SALT_LENGTH"
  let ?m' = "?m[?j := b]"
  let ?iv' = "take IV_LENGTH ?m'"
  let ?ct' = "drop IV_LENGTH (take (length ?m' - AUTH_TAG_LENGTH) ?m')"
  let ?tag' = "drop (length ?m' - AUTH_TAG_LENGTH) ?m'"
  have upd: "(s @ ?m)[i := b] = s @ ?m'"
    using i s by (simp add: list_update_append)
  have j: "?j < length ?m" using i s by auto
  have bj: "b \<noteq> ?m ! ?j" using b i s by (simp add: nth_append)
  have len: "IV_LENGTH + AUTH_TAG_LENGTH \<le> length ?m'"
    using iv tag by simp
  have parts: "?iv' @ ?ct' @ ?tag' = ?m'"
    using len by (rule split_encrypted)
  have lens: "length ?iv' = length iv" "length ?ct' = length ct" "length ?tag' = length tag"
    using iv tag by simp_all
  have "gcm_open L key ?iv' ?ct' ?tag' = None"
    using rej seal lens j bj parts unfolding gcm_rejects_flips_def by blast
  then have "decrypt L ?m' key = Inl CipherError"
    using len by (simp add: decrypt_def Let_def)
  then show ?thesis
    using b64 s upd by (simp add: decryptBackup_def tamper_def Let_def)
qed

subsection \<open>The reference library meets the contracts\<close>

lemma toy_byte_char [simp]: "toy_byte_of_char (toy_char_of_byte b) = b"
proof -
  have "unat b < 256" using unsigned_less [of b, where 'a=nat] by simp
  then show ?thesis
    by (simp add: toy_byte_of_char_def toy_char_of_byte_def)
qed

lemma toy_char_byte [simp]: "toy_char_of_byte (toy_byte_of_char c) = c"
  by (simp add: toy_byte_of_char_def toy_char_of_byte_def unat_of_nat)

lemma sum_list_update_word:
  fixes xs :: "byte list"
  assumes "j < length xs"
  shows "sum_list (xs[j := b]) = sum_list xs - xs ! j + b"
  using assms
  by (induction xs arbitrary: j) (auto split: nat.splits)

lemma toy_open_seal:
  assumes "length key = 32" "length iv = 12"
  shows "toy_open key iv (map (\<lambda>b. b + sum_list key) d)
           (replicate 15 0 @ [sum_list key - sum_list (iv @ map (\<lambda>b. b + sum_list key) d)]) = Some d"
  using assms by (simp add: toy_open_def comp_def sum_list_replicate)

lemma toyLib_inverses: "lib_inverses toyLib"
  unfolding lib_inverses_def
proof (intro conjI allI impI)
  fix bs :: buffer
  show "base64_decode toyLib (base64_encode toyLib bs) = bs"
    by (simp add: toyLib_def comp_def)
  show "zlib_gunzip toyLib (zlib_gzip toyLib bs) = Some bs"
    by (simp add: toyLib_def)
next
  fix key iv d :: buffer
  assume "length key = KEY_LENGTH \<and> length iv = IV_LENGTH"
  then have k: "length key = 32" and i: "length iv = 12"
    by (simp_all add: KEY_LENGTH_def IV_LENGTH_def)
  show "\<exists>ct tag. gcm_seal toyLib key iv d = Some (ct, tag) \<and> gcm_open toyLib key iv ct tag = Some d"
    using k i toy_open_seal [OF k i, of d] by (simp add: toyLib_def toy_seal_def Let_def)
next
  fix key iv d ct tag :: buffer
  assume "gcm_seal toyLib key iv d = Some (ct, tag)"
  then show "length tag = AUTH_TAG_LENGTH"
    by (auto simp: toyLib_def toy_seal_def Let_def AUTH_TAG_LENGTH_def split: if_splits)
qed

lemma toyLib_rejects_flips: "gcm_rejects_flips toyLib"
  unfolding gcm_rejects_flips_def
proof (intro allI impI)
  fix key iv d ct tag iv' ct' tag' :: buffer and j :: nat and b :: byte
  assume a: "gcm_seal toyLib key iv d = Some (ct, tag) \<and>
        length iv' = length iv \<and> length ct' = length ct \<and> length tag' = length tag \<and>
        j < length (iv @ ct @ tag) \<and> b \<noteq> (iv @ ct @ tag) ! j \<and>
        iv' @ ct' @ tag' = (iv @ ct @ tag)[j := b]"
  let ?m = "iv @ ct @ tag"
  from a have sum: "sum_list ?m = sum_list key"
    by (auto simp: toyLib_def toy_seal_def Let_def sum_list_replicate split: if_splits)
  from a have j: "j < length ?m" and b: "b \<noteq> ?m ! j"
    and m': "iv' @ ct' @ tag' = ?m[j := b]" by simp_all
  have "sum_list (?m[j := b]) \<noteq> sum_list key"
    using sum_list_update_word [OF j, of b] sum b by simp
  then have "sum_list (iv' @ ct' @ tag') \<noteq> sum_list key"
    using m' by simp
  then show "gcm_open toyLib key iv' ct' tag' = None"
    by (simp add: toyLib_def toy_open_def)
qed

lemma toy_eval:
  "base64_decode toyLib = map toy_byte_of_char" "base64_encode toyLib = map toy_char_of_byte"
  "utf8_encode toyLib = map toy_byte_of_char" "utf8_decode toyLib = map toy_char_of_byte"
  "zlib_gzip toyLib = (\<lambda>bs. 31 # 139 # bs)" "gcm_seal toyLib = toy_seal" "gcm_open toyLib = toy_open"
  by (simp_all add: toyLib_def)

lemma example_salt_decode: "base64_decode toyLib example_salt = replicate 32 3"
  by (simp add: example_salt_def generateSalt_def toyLib_def comp_def)

lemma example_utf8: "utf8_decode toyLib (utf8_encode toyLib p) = p"
  by (simp add: toyLib_def comp_def)

lemma example_lengths:
  "length example_key = KEY_LENGTH" "length example_iv = IV_LENGTH"
  "length (base64_decode toyLib example_salt) = SALT_LENGTH"
  by (simp_all add: example_key_def example_iv_def example_salt_decode
      KEY_LENGTH_def IV_LENGTH_def SALT_LENGTH_def)

lemma example_canonical: "base64_encode toyLib (base64_decode toyLib example_salt) = example_salt"
  by (simp add: toy_eval comp_def)

lemma example_encrypt:
  "encryptBackup toyLib example_iv ''KEY=1'' example_key example_salt = Inr example_envelope"
  by (simp add: example_envelope_def encryptBackup_def encrypt_def Let_def toy_eval toy_seal_def
      example_key_def example_iv_def)

lemma example_decrypt: "decryptBackup toyLib example_envelope example_key = Inr ''KEY=1''"
proof -
  from example_encrypt obtain ct tag where
    seal: "gcm_seal toyLib example_key example_iv (compress toyLib ''KEY=1'') = Some (ct, tag)"
    and env: "example_envelope =
      base64_encode toyLib (base64_decode toyLib example_salt @ example_iv @ ct @ tag)"
    by (rule encryptBackup_Inr)
  from toyLib_inverses example_lengths(1,2) obtain ct' tag' where
    "gcm_seal toyLib example_key example_iv (compress toyLib ''KEY=1'') = Some (ct', tag')"
    "gcm_open toyLib example_key example_iv ct' tag' = Some (compress toyLib ''KEY=1'')"
    unfolding lib_inverses_def by blast
  with seal have opn: "gcm_open toyLib example_key example_iv ct tag = Some (compress toyLib ''KEY=1'')"
    by simp
  from decryptBackup_sealed [OF toyLib_inverses example_utf8 example_lengths(2,3) seal opn] env
  show ?thesis by simp
qed

lemma example_envelope_bytes:
  "\<exists>ct tag. base64_decode toyLib example_envelope = replicate 32 3 @ replicate 12 2 @ ct @ tag"
proof -
  from example_encrypt obtain ct tag where
    "example_envelope = base64_encode toyLib (base64_decode toyLib example_salt @ example_iv @ ct @ tag)"
    by (rule encryptBackup_Inr)
  then have "base64_decode toyLib example_envelope =
      base64_decode toyLib (base64_encode toyLib (base64_decode toyLib example_salt @ example_iv @ ct @ tag))"
    by (rule arg_cong)
  also have "\<dots> = replicate 32 3 @ replicate 12 2 @ ct @ tag"
    by (simp add: toy_eval comp_def example_salt_decode [unfolded toy_eval] example_iv_def)
  finally show ?thesis by blast
qed

text \<open>
  A salt of 16 bytes is well-formed base64 too, but \<open>decryptBackup\<close> skips \<open>SALT_LENGTH\<close>
  bytes whatever the salt was: the envelope sealed with it does not open.
\<close>

lemma short_salt_does_not_open:
  "\<exists>env. encryptBackup toyLib example_iv ''KEY=1'' example_key short_salt = Inr env \<and>
         decryptBackup toyLib env example_key = Inl TooShort"
proof -
  have s: "base64_decode toyLib short_salt = replicate 16 3"
    by (simp add: short_salt_def generateSalt_def toyLib_def comp_def)
  have c: "length (compress toyLib ''KEY=1'') = 7"
    by (simp add: compress_def toy_eval)
  obtain ct tag where seal: "toy_seal example_key example_iv (compress toyLib ''KEY=1'') = Some (ct, tag)"
    and ct: "length ct = 7" and tag: "length tag = 16"
    using c by (simp add: toy_seal_def Let_def example_key_def example_iv_def)
  let ?env = "base64_encode toyLib (replicate 16 3 @ example_iv @ ct @ tag)"
  have enc: "encryptBackup toyLib example_iv ''KEY=1'' example_key short_salt = Inr ?env"
    using seal s by (simp add: encryptBackup_def encrypt_def Let_def toy_eval [symmetric])
  have "base64_decode toyLib ?env = replicate 16 3 @ example_iv @ ct @ tag"
    using toyLib_inverses unfolding lib_inverses_def by blast
  then have "decryptBackup toyLib ?env example_key = Inl TooShort"
    using ct tag
    by (simp add: decryptBackup_def decrypt_def Let_def SALT_LENGTH_def IV_LENGTH_def
        AUTH_TAG_LENGTH_def example_iv_def)
  with enc show ?thesis by blast
qed

section \<open>The scanner: lemmas\<close>

inductive_simps walk_Nil [simp]: "walk n [] m"

inductive_simps walk_Cons: "walk n (d # ds) m"

lemma walk_File [simp]: "walk (File x) ds m \<longleftrightarrow> ds = [] \<and> m = File x"
  by (cases ds) (auto simp: walk_Cons)

lemma walk_Other [simp]: "walk Other ds m \<longleftrightarrow> ds = [] \<and> m = Other"
  by (cases ds) (auto simp: walk_Cons)

lemma walk_unreadable [simp]: "walk (Dir False es) ds m \<longleftrightarrow> ds = [] \<and> m = Dir False es"
  by (cases ds) (auto simp: walk_Cons)

lemma walk_empty_dir [simp]: "walk (Dir True []) ds m \<longleftrightarrow> ds = [] \<and> m = Dir True []"
  by (cases ds) (auto simp: walk_Cons)

lemma walk_more_entries:
  assumes "walk (Dir True rest) xs m" "xs \<noteq> []"
  shows "walk (Dir True (e # rest)) xs m"
  using assms by (cases xs) (auto simp: walk_Cons)

lemma env_locs_simps [simp]:
  "env_locs (File x) = {}" "env_locs Other = {}" "env_locs (Dir False es) = {}" "env_locs (Dir True []) = {}"
  by (auto simp: env_locs_def)

lemma env_locs_Cons:
  "env_locs (Dir True ((d, e) # rest)) =
     (case e of File (Some c) \<Rightarrow> (if isEnvFile d then {([], d, c)} else {}) | _ \<Rightarrow> {}) \<union>
     (if isDirectory e \<and> d \<notin> SKIP_DIRS \<and> \<not> startsWith d ''.''
      then (\<lambda>(ds, nm, c). (d # ds, nm, c)) ` env_locs e else {}) \<union>
     env_locs (Dir True rest)"
  (is "?L = ?A \<union> ?B \<union> ?C")
proof (intro set_eqI iffI)
  fix x assume "x \<in> ?L"
  then obtain ds nm c where x: "x = (ds, nm, c)"
    and w: "walk (Dir True ((d, e) # rest)) (ds @ [nm]) (File (Some c))"
    and v: "\<forall>d \<in> set ds. d \<notin> SKIP_DIRS \<and> \<not> startsWith d ''.''" and env: "isEnvFile nm"
    by (auto simp: env_locs_def)
  show "x \<in> ?A \<union> ?B \<union> ?C"
  proof (cases ds)
    case Nil
    with w have "(nm, File (Some c)) \<in> set ((d, e) # rest)"
      by (auto simp: walk_Cons)
    then consider "nm = d" "e = File (Some c)" | "(nm, File (Some c)) \<in> set rest" by auto
    then show ?thesis
    proof cases
      case 1
      then show ?thesis using x Nil env by simp
    next
      case 2
      then have "x \<in> ?C" using x Nil env by (auto simp: env_locs_def walk_Cons)
      then show ?thesis by blast
    qed
  next
    case (Cons d' ds')
    with w obtain c' where c': "(d', c') \<in> set ((d, e) # rest)"
      and w': "walk c' (ds' @ [nm]) (File (Some c))"
      by (auto simp: walk_Cons)
    from c' consider "d' = d" "c' = e" | "(d', c') \<in> set rest" by auto
    then show ?thesis
    proof cases
      case 1
      from w' 1 have dir: "isDirectory e" by (cases e) auto
      have "(ds', nm, c) \<in> env_locs e"
        using w' 1 v Cons env by (auto simp: env_locs_def)
      then have "x \<in> ?B" using x Cons 1 dir v by force
      then show ?thesis by blast
    next
      case 2
      then have "walk (Dir True rest) (ds @ [nm]) (File (Some c))"
        using w' Cons by (auto simp: walk_Cons)
      then have "x \<in> ?C" using x v env by (auto simp: env_locs_def)
      then show ?thesis by blast
    qed
  qed
next
  fix x assume "x \<in> ?A \<union> ?B \<union> ?C"
  then consider "x \<in> ?A" | "x \<in> ?B" | "x \<in> ?C" by blast
  then show "x \<in> ?L"
  proof cases
    case 1
    then show ?thesis
      by (auto simp: env_locs_def walk_Cons split: fsnode.splits option.splits if_splits)
  next
    case 2
    then show ?thesis
      by (auto simp: env_locs_def walk_Cons split: if_splits)
  next
    case 3
    then show ?thesis
      by (auto simp: env_locs_def intro: walk_more_entries)
  qed
qed

lemma mkEnv_Cons: "mkEnv D pre (d # ds) nm c = mkEnv D (join_rel pre d) ds nm c"
  by (simp add: mkEnv_def)

lemma env_set_simps [simp]:
  "env_set D pre (File x) = {}" "env_set D pre Other = {}" "env_set D pre (Dir False es) = {}"
  "env_set D pre (Dir True []) = {}"
  by (simp_all add: env_set_def)

lemma env_set_Cons:
  "env_set D pre (Dir True ((d, e) # rest)) =
     (case e of
        File (Some c) \<Rightarrow>
          (if isEnvFile d then {\<lparr>filename = join_rel pre d, checksum = sha256 D c, content = c\<rparr>} else {})
      | _ \<Rightarrow> {}) \<union>
     (if isDirectory e \<and> d \<notin> SKIP_DIRS \<and> \<not> startsWith d ''.''
      then env_set D (join_rel pre d) e else {}) \<union>
     env_set D pre (Dir True rest)"
proof -
  let ?f = "\<lambda>(ds, nm, c). mkEnv D pre ds nm c"
  have A: "?f ` (case e of File (Some c) \<Rightarrow> (if isEnvFile d then {([], d, c)} else {}) | _ \<Rightarrow> {}) =
        (case e of
           File (Some c) \<Rightarrow>
             (if isEnvFile d then {\<lparr>filename = join_rel pre d, checksum = sha256 D c, content = c\<rparr>} else {})
         | _ \<Rightarrow> {})"
    by (simp add: mkEnv_def split: fsnode.splits option.splits)
  have "?f ` (\<lambda>(ds, nm, c). (d # ds, nm, c)) ` env_locs e = env_set D (join_rel pre d) e"
    by (simp add: env_set_def image_image case_prod_unfold mkEnv_Cons)
  then have B: "?f ` (if isDirectory e \<and> d \<notin> SKIP_DIRS \<and> \<not> startsWith d ''.''
                    then (\<lambda>(ds, nm, c). (d # ds, nm, c)) ` env_locs e else {}) =
        (if isDirectory e \<and> d \<notin> SKIP_DIRS \<and> \<not> startsWith d ''.''
         then env_set D (join_rel pre d) e else {})"
    by simp
  have "env_set D pre (Dir True ((d, e) # rest)) = ?f ` env_locs (Dir True ((d, e) # rest))"
    by (simp add: env_set_def)
  also have "\<dots> = ?f ` (case e of File (Some c) \<Rightarrow> (if isEnvFile d then {([], d, c)} else {}) | _ \<Rightarrow> {}) \<union>
      ?f ` (if isDirectory e \<and> d \<notin> SKIP_DIRS \<and> \<not> startsWith d ''.''
            then (\<lambda>(ds, nm, c). (d # ds, nm, c)) ` env_locs e else {}) \<union>
      ?f ` env_locs (Dir True rest)"
    by (simp only: env_locs_Cons image_Un)
  finally show ?thesis
    by (simp only: A B env_set_def)
qed

lemma scanDir_set:
  "set (scanDir D n pre acc) = set acc \<union> env_set D pre n"
  "set (scanDir_loop D es pre acc) = set acc \<union> env_set D pre (Dir True es)"
proof (induction D n pre acc and D es pre acc rule: scanDir_scanDir_loop.induct)
  case (1 D readable entries pre envFiles)
  then show ?case by (cases readable) simp_all
next
  case (2 D c pre envFiles)
  then show ?case by simp
next
  case (3 D pre envFiles)
  then show ?case by simp
next
  case (4 D pre envFiles)
  then show ?case by simp
next
  case (5 D d e rest pre acc)
  let ?X = "if isFile e \<and> isEnvFile d then
              (case e of
                 File (Some c) \<Rightarrow>
                   acc @ [\<lparr>filename = join_rel pre d, checksum = sha256 D c, content = c\<rparr>]
               | _ \<Rightarrow> acc)
            else if isDirectory e \<and> d \<notin> SKIP_DIRS \<and> \<not> startsWith d ''.'' then
              scanDir D e (join_rel pre d) acc
            else acc"
  let ?A = "case e of
        File (Some c) \<Rightarrow>
          (if isEnvFile d then {\<lparr>filename = join_rel pre d, checksum = sha256 D c, content = c\<rparr>} else {})
      | _ \<Rightarrow> {}"
  let ?B = "if isDirectory e \<and> d \<notin> SKIP_DIRS \<and> \<not> startsWith d ''.''
      then env_set D (join_rel pre d) e else {}"
  have loop: "set (scanDir_loop D rest pre ?X) = set ?X \<union> env_set D pre (Dir True rest)"
    by (rule "5.IH"(2))
  have X: "set ?X = set acc \<union> ?A \<union> ?B"
  proof (cases e)
    case (File x)
    then show ?thesis by (cases x) auto
  next
    case (Dir r es)
    show ?thesis
    proof (cases "d \<notin> SKIP_DIRS \<and> \<not> startsWith d ''.''")
      case True
      with Dir have "set (scanDir D e (join_rel pre d) acc) = set acc \<union> env_set D (join_rel pre d) e"
        by (intro "5.IH"(1)) simp_all
      with True Dir show ?thesis by simp
    next
      case False
      with Dir show ?thesis by auto
    qed
  next
    case Other
    then show ?thesis by simp
  qed
  have "set (scanDir_loop D ((d, e) # rest) pre acc) = set (scanDir_loop D rest pre ?X)"
    by simp
  also have "\<dots> = set acc \<union> (?A \<union> ?B \<union> env_set D pre (Dir True rest))"
    unfolding loop X by (simp only: Un_assoc)
  also have "?A \<union> ?B \<union> env_set D pre (Dir True rest) = env_set D pre (Dir True ((d, e) # rest))"
    by (rule env_set_Cons [symmetric])
  finally show ?case .
qed

lemma set_findEnvFiles: "set (findEnvFiles D n) = env_set D [] n"
  by (simp add: findEnvFiles_def scanDir_set)

lemma split_slash_no_slash: "CHR ''/'' \<notin> set s \<Longrightarrow> split_slash s = [s]"
  by (induction s) auto

lemma path_join_valid: "valid_name d \<Longrightarrow> path_join dp d = dp @ [d]"
  by (simp add: valid_name_def path_join_def split_slash_no_slash path_step_def)

lemma foldl_path_join_valid: "\<forall>d \<in> set ds. valid_name d \<Longrightarrow> foldl path_join dp ds = dp @ ds"
  by (induction ds arbitrary: dp) (simp_all add: path_join_valid)

lemma wf_entries_member:
  "wf_entries es \<Longrightarrow> (d, c) \<in> set es \<Longrightarrow> valid_name d \<and> wf_node c"
  by (induction es) auto

lemma wf_walk:
  assumes "walk n ds m" "wf_node n"
  shows "(\<forall>d \<in> set ds. valid_name d) \<and> wf_node m"
  using assms
  by (induction rule: walk.induct) (auto dest: wf_entries_member)

lemma finds_walk:
  assumes "finds n ds pn"
  shows "walk n ds pn \<and> isProjectRoot pn \<and> (\<forall>d \<in> set ds. d \<notin> SKIP_DIRS \<and> \<not> startsWith d ''.'')"
  using assms
  by (induction rule: finds.induct) (auto intro: walk.intros)

lemma finds_top_walk:
  assumes "finds_top root ds pn"
  shows "walk root ds pn \<and> isProjectRoot pn \<and> (\<forall>d \<in> set ds. d \<notin> SKIP_DIRS)"
proof -
  from assms consider "isProjectRoot root" "ds = []" "pn = root"
    | es d c ds' where "root = Dir True es" "(d, c) \<in> set es" "d \<notin> SKIP_DIRS" "finds c ds' pn" "ds = d # ds'"
    unfolding finds_top_def by blast
  then show ?thesis
  proof cases
    case 1
    then show ?thesis by simp
  next
    case 2
    from finds_walk [OF 2(4)] 2 show ?thesis
      by (auto intro: walk.step)
  qed
qed

lemma pushProject_projects:
  "projects (pushProject D dp n st) =
     projects st @ [\<lparr>project_id = uuidv4 D (length (projects st)),
                name = getProjectName D dp n,
                git = getGitRemoteUrl D dp n,
                fingerprint = fst (generateFingerprint D dp n),
                path = dp,
                envs = findEnvFiles D n,
                fingerprintSource = fst (snd (generateFingerprint D dp n)),
                fingerprintValue = snd (snd (generateFingerprint D dp n))\<rparr>]"
  by (simp add: pushProject_def Let_def)

lemma scan_sound:
  "p \<in> set (projects (scan D dp n st)) \<Longrightarrow>
     p \<in> set (projects st) \<or> (\<exists>ds pn. finds n ds pn \<and> located D dp p ds pn)"
  "p \<in> set (projects (scan_loop D dp es st)) \<Longrightarrow>
     p \<in> set (projects st) \<or>
     (\<exists>d c ds pn. (d, c) \<in> set es \<and> isDirectory c \<and> d \<notin> SKIP_DIRS \<and> \<not> startsWith d ''.'' \<and>
        finds c ds pn \<and> located D dp p (d # ds) pn)"
proof (induction D dp n st and D dp es st rule: scan_scan_loop.induct)
  case (1 D dp readable entries st)
  show ?case
  proof (cases "isProjectRoot (Dir readable entries)")
    case True
    with "1.prems" have "p \<in> set (projects st) \<or> located D dp p [] (Dir readable entries)"
      by (auto simp: pushProject_projects located_def)
    with True show ?thesis by (blast intro: finds.found)
  next
    case False
    show ?thesis
    proof (cases readable)
      case True
      with False "1.prems" have "p \<in> set (projects (scan_loop D dp entries st))" by simp
      from "1.IH" [OF False True this] consider "p \<in> set (projects st)"
        | d c ds pn where "(d, c) \<in> set entries" "isDirectory c" "d \<notin> SKIP_DIRS"
          "\<not> startsWith d ''.''" "finds c ds pn" "located D dp p (d # ds) pn"
        by blast
      then show ?thesis
      proof cases
        case 1
        then show ?thesis by simp
      next
        case 2
        from False True have "\<not> isProjectRoot (Dir True entries)" by simp
        from finds.descend [OF this 2(1-5)] True have "finds (Dir readable entries) (d # ds) pn"
          by simp
        with 2(6) show ?thesis by blast
      qed
    next
      case False
      with \<open>\<not> isProjectRoot (Dir readable entries)\<close> "1.prems" show ?thesis by simp
    qed
  qed
next
  case (2 D dp c st)
  then show ?case by simp
next
  case (3 D dp st)
  then show ?case by simp
next
  case (4 D dp st)
  then show ?case by simp
next
  case (5 D dp d e rest st)
  let ?c = "isDirectory e \<and> d \<notin> SKIP_DIRS \<and> \<not> startsWith d ''.''"
  let ?X = "if ?c then scan D (path_join dp d) e st else st"
  from "5.prems" have "p \<in> set (projects (scan_loop D dp rest ?X))" by simp
  from "5.IH"(2) [OF this] consider
    (old) "p \<in> set (projects ?X)"
    | (new) d' c ds pn where "(d', c) \<in> set rest" "isDirectory c" "d' \<notin> SKIP_DIRS"
      "\<not> startsWith d' ''.''" "finds c ds pn" "located D dp p (d' # ds) pn"
    by blast
  then show ?case
  proof cases
    case old
    show ?thesis
    proof (cases ?c)
      case True
      with old have "p \<in> set (projects (scan D (path_join dp d) e st))" by simp
      from "5.IH"(1) [OF True this] True show ?thesis
        by (fastforce simp: located_def)
    next
      case False
      with old show ?thesis by simp
    qed
  next
    case new
    then show ?thesis by auto
  qed
qed

lemma root_loop_sound:
  "p \<in> set (projects (root_loop D dp es st)) \<Longrightarrow>
     p \<in> set (projects st) \<or>
     (\<exists>d c ds pn. (d, c) \<in> set es \<and> isDirectory c \<and> d \<notin> SKIP_DIRS \<and>
        finds c ds pn \<and> located D dp p (d # ds) pn)"
proof (induction es arbitrary: st)
  case Nil
  then show ?case by simp
next
  case (Cons a es)
  obtain d e where a: "a = (d, e)" by (cases a)
  let ?c = "isDirectory e \<and> d \<notin> SKIP_DIRS"
  let ?X = "if ?c then scan D (path_join dp d) e st else st"
  from Cons.prems a have "p \<in> set (projects (root_loop D dp es ?X))" by simp
  from Cons.IH [OF this] consider
    (old) "p \<in> set (projects ?X)"
    | (new) d' c ds pn where "(d', c) \<in> set es" "isDirectory c" "d' \<notin> SKIP_DIRS"
      "finds c ds pn" "located D dp p (d' # ds) pn"
    by blast
  then show ?case
  proof cases
    case old
    show ?thesis
    proof (cases ?c)
      case True
      with old have "p \<in> set (projects (scan D (path_join dp d) e st))" by simp
      from scan_sound(1) [OF this] True a show ?thesis
        by (fastforce simp: located_def)
    next
      case False
      with old show ?thesis by simp
    qed
  next
    case new
    then show ?thesis using a by auto
  qed
qed

lemma scanDirectory_sound:
  assumes "p \<in> set (projects (scanDirectory D rp root))"
  shows "\<exists>ds pn. finds_top root ds pn \<and> located D rp p ds pn"
proof (cases "isProjectRoot root")
  case True
  with assms have "located D rp p [] root"
    by (auto simp: scanDirectory_def Let_def pushProject_projects located_def)
  with True show ?thesis unfolding finds_top_def by blast
next
  case False
  with assms obtain es where root: "root = Dir True es"
    and p: "p \<in> set (projects (root_loop D rp es \<lparr>projects = [], totalEnvFiles = 0\<rparr>))"
    by (auto simp: scanDirectory_def Let_def split: fsnode.splits if_splits)
  from root_loop_sound [OF p] obtain d c ds pn where
    "(d, c) \<in> set es" "isDirectory c" "d \<notin> SKIP_DIRS" "finds c ds pn" "located D rp p (d # ds) pn"
    by auto
  with False root show ?thesis unfolding finds_top_def by blast
qed

inductive_cases finds_DirE: "finds (Dir True es) (d # ds) pn"

lemma finds_root_only:
  assumes "finds n ds pn" "isProjectRoot n"
  shows "ds = []"
  using assms by (induction rule: finds.induct) auto

lemma finds_antichain:
  assumes "finds n ds pn" "finds n ds' pn'" "wf_node n"
  shows "\<not> strict_prefix ds ds'"
  using assms
proof (induction arbitrary: ds' pn' rule: finds.induct)
  case (found n)
  from finds_root_only [OF found(2,1)] show ?case by simp
next
  case (descend es d c ds pn)
  show ?case
  proof
    assume "strict_prefix (d # ds) ds'"
    then obtain ds1 where ds': "ds' = d # ds1" and sp: "strict_prefix ds ds1"
      by (cases ds') (auto simp: strict_prefix_def)
    from descend.prems(1) ds' have "finds (Dir True es) (d # ds1) pn'" by simp
    then obtain c' where c': "(d, c') \<in> set es" "finds c' ds1 pn'"
      by (rule finds_DirE)
    from descend.prems(2) have dist: "distinct (map fst es)" and wfe: "wf_entries es" by simp_all
    from dist c'(1) descend.hyps(2) have "c' = c" by (rule eq_key_imp_eq_value)
    moreover from wfe descend.hyps(2) have "wf_node c" by (auto dest: wf_entries_member)
    ultimately have "\<not> strict_prefix ds ds1" using c'(2) descend.IH by blast
    with sp show False by contradiction
  qed
qed

lemma finds_top_antichain:
  assumes "finds_top root ds pn" "finds_top root ds' pn'" "wf_node root"
  shows "\<not> strict_prefix ds ds'"
proof
  assume sp: "strict_prefix ds ds'"
  then have ne: "ds' \<noteq> []" by auto
  with assms(2) obtain es' d' c' ds1' where r': "\<not> isProjectRoot root" "root = Dir True es'"
    "(d', c') \<in> set es'" "finds c' ds1' pn'" "ds' = d' # ds1'"
    unfolding finds_top_def by auto
  with assms(1) obtain d c ds1 where r: "(d, c) \<in> set es'" "finds c ds1 pn" "ds = d # ds1"
    unfolding finds_top_def by auto
  from sp r(3) r'(5) have dd: "d' = d" and sp1: "strict_prefix ds1 ds1'"
    by (auto simp: strict_prefix_def)
  from assms(3) r'(2) have dist: "distinct (map fst es')" and wfe: "wf_entries es'" by simp_all
  from dist r'(3) r(1) dd have "c' = c" by (auto dest: eq_key_imp_eq_value)
  moreover from wfe r(1) have "wf_node c" by (auto dest: wf_entries_member)
  ultimately show False using finds_antichain [OF r(2) _ \<open>wf_node c\<close>] r'(4) sp1 by blast
qed

lemma strict_prefix_same_append: "strict_prefix (xs @ ys) (xs @ zs) \<longleftrightarrow> strict_prefix ys zs"
  by (auto simp: strict_prefix_def)

lemma work_scan: "projects (scanDirectory exampleLib [''home'', ''u''] work_tree) = [api_project, tools_project]"
  by code_simp

lemma work_wf: "wf_node work_tree"
  by code_simp

lemma work_tree_api: "walk work_tree [''api''] pn \<Longrightarrow> pn = api_node"
  by (auto simp: work_tree_def walk_Cons)

lemma walk_web_env: "walk api_node ([''packages'', ''web''] @ [''.env.local'']) (File (Some ''WEB=1''))"
  by (auto simp: api_node_def web_node_def manifest_def walk_Cons)

section \<open>The restore: lemmas\<close>

lemma path_text_nonempty: "path_text p \<noteq> []"
  by (cases p) (simp_all add: path_text_def)

lemma fingerprint_loop_lookup:
  "fingerprint_loop ps m d =
     (if filter (\<lambda>q. fingerprint q = d) ps = [] then m d
      else Some (path (last (filter (\<lambda>q. fingerprint q = d) ps))))"
  by (induction ps arbitrary: m) auto

lemma buildFingerprintMap_lookup:
  "buildFingerprintMap ps d =
     (if filter (\<lambda>q. fingerprint q = d) ps = [] then None
      else Some (path (last (filter (\<lambda>q. fingerprint q = d) ps))))"
  by (simp add: buildFingerprintMap_def fingerprint_loop_lookup)

lemma dom_buildFingerprintMap: "dom (buildFingerprintMap ps) = fingerprint ` set ps"
  by (auto simp: dom_def buildFingerprintMap_lookup filter_empty_conv)

lemma match_loop_eq:
  "match_loop fm bps (ms, us) =
     (ms @ map (\<lambda>p. \<lparr>backupProject = p, localPath = the (fm (fingerprint p))\<rparr>)
             (filter (\<lambda>p. fingerprint p \<in> dom fm) bps),
      us @ filter (\<lambda>p. fingerprint p \<notin> dom fm) bps)"
  by (induction bps arbitrary: ms us) (auto simp: path_text_nonempty dom_def split: option.splits)

lemma last_filter_fingerprint:
  assumes "q \<in> set ps"
  shows "buildFingerprintMap ps (fingerprint q) =
         Some (path (last (filter (\<lambda>r. fingerprint r = fingerprint q) ps)))"
  using assms by (auto simp: buildFingerprintMap_lookup filter_empty_conv)

lemma restore_files_foldl:
  "restore_files options bp lp fs st = foldl (\<lambda>s f. restore_file options bp lp f s) st fs"
  by (induction fs arbitrary: st) simp_all

lemma restore_projects_foldl:
  "restore_projects options ms st = foldl (restore_step options) st (work_list ms)"
proof (induction ms arbitrary: st)
  case Nil
  then show ?case by (simp add: work_list_def)
next
  case (Cons m ms)
  have "restore_files options (backupProject m) (localPath m) fs st =
        foldl (restore_step options) st (map (Pair m) fs)" for fs st
    by (induction fs arbitrary: st) (simp_all add: restore_step_def)
  with Cons show ?case by (simp add: work_list_def)
qed

lemma restore_file_skip:
  assumes "pathExists (localFs st) (path_join lp (filename f))" "\<not> force options"
  shows "restore_file options bp lp f st =
         st\<lparr>stats := (stats st)\<lparr>skipped := skipped (stats st) + 1\<rparr>,
            items := items st @ [(name bp @ ''/'' @ filename f, Skipped)]\<rparr>"
  using assms by (simp add: restore_file_def Let_def)

lemma restore_file_write:
  assumes "\<not> (pathExists (localFs st) (path_join lp (filename f)) \<and> \<not> force options)"
    and "\<not> write_fails (localFs st) (path_join lp (filename f))"
  shows "restore_file options bp lp f st =
         st\<lparr>localFs := (localFs st)\<lparr>files := (files (localFs st))(path_join lp (filename f) \<mapsto>
                 \<lparr>file_content = content f, file_mode = mode_0o600\<rparr>)\<rparr>,
            stats := (stats st)\<lparr>restored := restored (stats st) + 1\<rparr>,
            items := items st @ [(name bp @ ''/'' @ filename f, Restored)]\<rparr>"
  using assms by (auto simp: restore_file_def Let_def writeFileContent_def)

lemma restore_file_fail:
  assumes "\<not> (pathExists (localFs st) (path_join lp (filename f)) \<and> \<not> force options)"
    and "write_fails (localFs st) (path_join lp (filename f))"
  shows "restore_file options bp lp f st =
         st\<lparr>stats := (stats st)\<lparr>failed := failed (stats st) + 1\<rparr>,
            items := items st @ [(name bp @ ''/'' @ filename f, Failed)]\<rparr>"
  using assms by (auto simp: restore_file_def Let_def writeFileContent_def)

lemma restore_file_cases:
  obtains (skip) "pathExists (localFs st) (path_join lp (filename f))" and "\<not> force options"
  | (ok) "\<not> (pathExists (localFs st) (path_join lp (filename f)) \<and> \<not> force options)"
      and "\<not> write_fails (localFs st) (path_join lp (filename f))"
  | (bad) "\<not> (pathExists (localFs st) (path_join lp (filename f)) \<and> \<not> force options)"
      and "write_fails (localFs st) (path_join lp (filename f))"
  by blast

lemma restore_file_counted:
  "counted (stats (restore_file options bp lp f st)) = counted (stats st) + 1"
  by (cases rule: restore_file_cases [of st lp f options])
     (simp_all add: restore_file_skip restore_file_write restore_file_fail counted_def)

lemma restore_file_items:
  "length (items (restore_file options bp lp f st)) = length (items st) + 1"
  by (cases rule: restore_file_cases [of st lp f options])
     (simp_all add: restore_file_skip restore_file_write restore_file_fail)

lemma restore_file_keeps:
  assumes "\<not> force options" "files (localFs st) p = Some x"
  shows "files (localFs (restore_file options bp lp f st)) p = Some x"
  using assms
  by (cases rule: restore_file_cases [of st lp f options])
     (auto simp: restore_file_skip restore_file_write restore_file_fail pathExists_def)

lemma restore_file_elsewhere:
  assumes "p \<noteq> path_join lp (filename f)"
  shows "files (localFs (restore_file options bp lp f st)) p = files (localFs st) p"
  using assms
  by (cases rule: restore_file_cases [of st lp f options])
     (auto simp: restore_file_skip restore_file_write restore_file_fail)

lemma foldl_step_counted:
  "counted (stats (foldl (restore_step options) st ws)) = counted (stats st) + length ws"
  by (induction ws arbitrary: st) (simp_all add: restore_step_def restore_file_counted)

lemma foldl_step_items:
  "length (items (foldl (restore_step options) st ws)) = length (items st) + length ws"
  by (induction ws arbitrary: st) (simp_all add: restore_step_def restore_file_items)

lemma foldl_step_keeps:
  assumes "\<not> force options" "files (localFs st) p = Some x"
  shows "files (localFs (foldl (restore_step options) st ws)) p = Some x"
  using assms(2)
  by (induction ws arbitrary: st) (simp_all add: restore_step_def restore_file_keeps [OF assms(1)])

lemma restore_file_shift:
  assumes "localFs s = localFs s'"
  shows "localFs (restore_file options bp lp f s) = localFs (restore_file options bp lp f s') \<and>
         restored (stats (restore_file options bp lp f s)) + restored (stats s') =
           restored (stats (restore_file options bp lp f s')) + restored (stats s) \<and>
         skipped (stats (restore_file options bp lp f s)) + skipped (stats s') =
           skipped (stats (restore_file options bp lp f s')) + skipped (stats s) \<and>
         failed (stats (restore_file options bp lp f s)) + failed (stats s') =
           failed (stats (restore_file options bp lp f s')) + failed (stats s)"
  using assms
  by (cases rule: restore_file_cases [of s lp f options])
     (simp_all add: restore_file_skip restore_file_write restore_file_fail)

lemma foldl_step_shift:
  assumes "localFs s = localFs s'"
  shows "localFs (foldl (restore_step options) s ws) = localFs (foldl (restore_step options) s' ws) \<and>
         restored (stats (foldl (restore_step options) s ws)) + restored (stats s') =
           restored (stats (foldl (restore_step options) s' ws)) + restored (stats s) \<and>
         skipped (stats (foldl (restore_step options) s ws)) + skipped (stats s') =
           skipped (stats (foldl (restore_step options) s' ws)) + skipped (stats s) \<and>
         failed (stats (foldl (restore_step options) s ws)) + failed (stats s') =
           failed (stats (foldl (restore_step options) s' ws)) + failed (stats s)"
  using assms
proof (induction ws arbitrary: s s')
  case Nil
  then show ?case by simp
next
  case (Cons w ws)
  let ?t = "restore_step options s w" and ?t' = "restore_step options s' w"
  from restore_file_shift [OF Cons.prems]
  have fs: "localFs ?t = localFs ?t'"
    and r: "restored (stats ?t) + restored (stats s') = restored (stats ?t') + restored (stats s)"
    and k: "skipped (stats ?t) + skipped (stats s') = skipped (stats ?t') + skipped (stats s)"
    and f: "failed (stats ?t) + failed (stats s') = failed (stats ?t') + failed (stats s)"
    unfolding restore_step_def by blast+
  from Cons.IH [OF fs] r k f show ?case by simp
qed

lemma work_list_length: "length (work_list ms) = sum_list (map (\<lambda>m. length (envs (backupProject m))) ms)"
  by (simp add: work_list_def length_concat comp_def)

lemma restoreCommand_matched:
  "matched (restoreCommand D options blob cwd tree fs) =
     fst (match_loop (buildFingerprintMap (projects (scanDirectory D cwd tree))) (blob_projects blob) ([], []))"
  "unmatched (restoreCommand D options blob cwd tree fs) =
     snd (match_loop (buildFingerprintMap (projects (scanDirectory D cwd tree))) (blob_projects blob) ([], []))"
  by (simp_all add: restoreCommand_def Let_def split: prod.splits)

lemma restoreCommand_final:
  "final (restoreCommand D options blob cwd tree fs) =
     restore_projects options (matched (restoreCommand D options blob cwd tree fs))
       \<lparr>localFs = fs, stats = \<lparr>restored = 0, skipped = 0, failed = 0\<rparr>, items = []\<rparr>"
  by (simp add: restoreCommand_def Let_def split: prod.splits)

section \<open>The claims\<close>

subsection \<open>Crypto envelope\<close>

text \<open>
  C1: for every plaintext, every key of 32 bytes and every valid salt, \<open>decryptBackup\<close> of
  what \<open>encryptBackup\<close> sealed, under the same key, returns the plaintext. The library is
  taken to meet \<open>lib_inverses\<close>; the plaintext is one that survives UTF-8 encoding and
  decoding; a valid salt is one that decodes to \<open>SALT_LENGTH\<close> bytes, as \<open>generateSalt\<close>
  produces (\<open>short_salt_does_not_open\<close> shows that the length is needed); the nonce is the
  \<open>IV_LENGTH\<close> bytes \<open>randomBytes\<close> returned.
\<close>

theorem encryptBackup_decryptBackup_roundtrip:
  assumes lib: "lib_inverses L"
    and utf8: "utf8_decode L (utf8_encode L p) = p"
    and key: "length key = KEY_LENGTH"
    and iv: "length iv = IV_LENGTH"
    and salt: "length (base64_decode L salt) = SALT_LENGTH"
  shows "\<exists>env. encryptBackup L iv p key salt = Inr env \<and> decryptBackup L env key = Inr p"
proof -
  from lib key iv obtain ct tag where
    seal: "gcm_seal L key iv (compress L p) = Some (ct, tag)"
    and opn: "gcm_open L key iv ct tag = Some (compress L p)"
    unfolding lib_inverses_def by blast
  let ?env = "base64_encode L (base64_decode L salt @ iv @ ct @ tag)"
  have "encryptBackup L iv p key salt = Inr ?env"
    using seal by (simp add: encryptBackup_def encrypt_def Let_def)
  moreover have "decryptBackup L ?env key = Inr p"
    using lib utf8 iv salt seal opn by (rule decryptBackup_sealed)
  ultimately show ?thesis by blast
qed

theorem encryptBackup_decryptBackup_roundtrip_witness:
  "lib_inverses toyLib \<and>
   utf8_decode toyLib (utf8_encode toyLib ''KEY=1'') = ''KEY=1'' \<and>
   length example_key = KEY_LENGTH \<and> length example_iv = IV_LENGTH \<and>
   length (base64_decode toyLib example_salt) = SALT_LENGTH \<and>
   (\<exists>env. encryptBackup toyLib example_iv ''KEY=1'' example_key example_salt = Inr env \<and>
          decryptBackup toyLib env example_key = Inr ''KEY=1'')"
  using encryptBackup_decryptBackup_roundtrip
      [OF toyLib_inverses example_utf8 example_lengths, of "''KEY=1''"]
    toyLib_inverses example_utf8 [of "''KEY=1''"] example_lengths
  by blast

text \<open>
  C2, as stated, fails: \<open>decryptBackup\<close> drops the first \<open>SALT_LENGTH\<close> bytes unread, so an
  envelope with a changed salt byte opens under the original key and gives the plaintext
  back. Here byte 0 of the envelope, a 3, becomes 255.
\<close>

theorem salt_byte_flip_undetected:
  "encryptBackup toyLib example_iv ''KEY=1'' example_key example_salt = Inr example_envelope \<and>
   base64_decode toyLib example_envelope ! 0 = 3 \<and>
   decryptBackup toyLib (tamper toyLib 0 255 example_envelope) example_key = Inr ''KEY=1''"
proof -
  from example_envelope_bytes obtain ct tag where
    "base64_decode toyLib example_envelope = replicate 32 3 @ replicate 12 2 @ ct @ tag"
    by blast
  then have "base64_decode toyLib example_envelope ! 0 = 3"
    by (simp add: nth_append)
  moreover have "\<forall>bs. base64_decode toyLib (base64_encode toyLib bs) = bs"
    using toyLib_inverses unfolding lib_inverses_def by blast
  then have "decryptBackup toyLib (tamper toyLib 0 255 example_envelope) example_key =
      decryptBackup toyLib example_envelope example_key"
    by (rule tamper_in_salt) (simp add: SALT_LENGTH_def)
  ultimately show ?thesis
    using example_encrypt example_decrypt by simp
qed

text \<open>
  C2, amended: changing one byte of a sealed envelope at a position past the salt (in the
  nonce, the ciphertext or the tag) makes \<open>decryptBackup\<close> under the original key fail with
  the cipher's error, for a cipher that refuses one-byte changes (\<open>gcm_rejects_flips\<close>);
  changing one of the first \<open>SALT_LENGTH\<close> bytes is not noticed by \<open>decryptBackup\<close>, which
  returns what it returns for the untouched envelope.
\<close>

theorem tamper_detected_past_salt:
  assumes lib: "lib_inverses L"
    and rej: "gcm_rejects_flips L"
    and iv: "length iv = IV_LENGTH"
    and salt: "length (base64_decode L salt) = SALT_LENGTH"
    and enc: "encryptBackup L iv p key salt = Inr env"
    and i: "i < length (base64_decode L env)"
    and b: "b \<noteq> base64_decode L env ! i"
  shows "(SALT_LENGTH \<le> i \<longrightarrow> decryptBackup L (tamper L i b env) key = Inl CipherError) \<and>
         (i < SALT_LENGTH \<longrightarrow> decryptBackup L (tamper L i b env) key = decryptBackup L env key)"
proof -
  from lib have b64: "\<forall>bs. base64_decode L (base64_encode L bs) = bs"
    unfolding lib_inverses_def by blast
  from enc obtain ct tag where seal: "gcm_seal L key iv (compress L p) = Some (ct, tag)"
    and env: "env = base64_encode L (base64_decode L salt @ iv @ ct @ tag)"
    by (rule encryptBackup_Inr)
  from lib seal have tag: "length tag = AUTH_TAG_LENGTH"
    unfolding lib_inverses_def by blast
  have dec: "base64_decode L env = base64_decode L salt @ iv @ ct @ tag"
    using b64 env by simp
  show ?thesis
  proof (intro conjI impI)
    assume "SALT_LENGTH \<le> i"
    then show "decryptBackup L (tamper L i b env) key = Inl CipherError"
      using tamper_after_salt [OF b64 rej iv salt seal tag, of i b] i b dec env by simp
  next
    assume "i < SALT_LENGTH"
    then show "decryptBackup L (tamper L i b env) key = decryptBackup L env key"
      using b64 by (rule tamper_in_salt [rotated])
  qed
qed

theorem tamper_detected_past_salt_witness:
  "lib_inverses toyLib \<and> gcm_rejects_flips toyLib \<and> length example_iv = IV_LENGTH \<and>
   length (base64_decode toyLib example_salt) = SALT_LENGTH \<and>
   encryptBackup toyLib example_iv ''KEY=1'' example_key example_salt = Inr example_envelope \<and>
   40 < length (base64_decode toyLib example_envelope) \<and>
   base64_decode toyLib example_envelope ! 40 = 2 \<and>
   decryptBackup toyLib (tamper toyLib 40 9 example_envelope) example_key = Inl CipherError \<and>
   base64_decode toyLib example_envelope ! 7 = 3 \<and>
   decryptBackup toyLib (tamper toyLib 7 9 example_envelope) example_key =
     decryptBackup toyLib example_envelope example_key"
proof -
  from example_envelope_bytes obtain ct tag where
    b: "base64_decode toyLib example_envelope = replicate 32 3 @ replicate 12 2 @ ct @ tag"
    by blast
  have l: "40 < length (base64_decode toyLib example_envelope)" "7 < length (base64_decode toyLib example_envelope)"
    by (simp_all add: b)
  have n40: "base64_decode toyLib example_envelope ! 40 = 2"
    by (simp add: b nth_append)
  have n7: "base64_decode toyLib example_envelope ! 7 = 3"
    by (simp add: b nth_append)
  have ne: "(9::byte) \<noteq> base64_decode toyLib example_envelope ! 40"
    "(9::byte) \<noteq> base64_decode toyLib example_envelope ! 7"
    by (simp_all add: n40 n7)
  have s: "SALT_LENGTH \<le> 40" "7 < SALT_LENGTH" by (simp_all add: SALT_LENGTH_def)
  from tamper_detected_past_salt [OF toyLib_inverses toyLib_rejects_flips example_lengths(2,3) example_encrypt l(1) ne(1)] s(1)
  have t40: "decryptBackup toyLib (tamper toyLib 40 9 example_envelope) example_key = Inl CipherError"
    by blast
  from tamper_detected_past_salt [OF toyLib_inverses toyLib_rejects_flips example_lengths(2,3) example_encrypt l(2) ne(2)] s(2)
  have t7: "decryptBackup toyLib (tamper toyLib 7 9 example_envelope) example_key =
     decryptBackup toyLib example_envelope example_key"
    by blast
  from toyLib_inverses toyLib_rejects_flips example_lengths(2,3) example_encrypt l(1) n40 t40 n7 t7
  show ?thesis by blast
qed

text \<open>
  C3: the decoded output of \<open>encryptBackup\<close> is the salt (32 bytes), the nonce (12 bytes),
  the ciphertext and the tag (16 bytes) in this order, the data sealed being the gzip of
  the UTF-8 plaintext; \<open>extractSaltFromBackup\<close> gives the salt back, as bytes and, for a salt
  in the canonical base64 text that \<open>generateSalt\<close> produces, as the very string, and it
  does so whatever the decryption functions are. The salt is one of \<open>SALT_LENGTH\<close> bytes,
  the nonce the \<open>IV_LENGTH\<close> bytes drawn; with a key of \<open>KEY_LENGTH\<close> bytes
  \<open>encryptBackup\<close> returns.
\<close>

theorem envelope_wire_format:
  assumes lib: "lib_inverses L"
    and iv: "length iv = IV_LENGTH"
    and salt: "length (base64_decode L salt) = SALT_LENGTH"
  shows "(length key = KEY_LENGTH \<longrightarrow> (\<exists>env. encryptBackup L iv p key salt = Inr env)) \<and>
         (\<forall>env. encryptBackup L iv p key salt = Inr env \<longrightarrow>
            (\<exists>ct tag.
               gcm_seal L key iv (zlib_gzip L (utf8_encode L p)) = Some (ct, tag) \<and>
               base64_decode L env = base64_decode L salt @ iv @ ct @ tag \<and>
               length (base64_decode L salt) = 32 \<and> length iv = 12 \<and> length tag = 16) \<and>
            base64_decode L (extractSaltFromBackup L env) = base64_decode L salt \<and>
            (base64_encode L (base64_decode L salt) = salt \<longrightarrow>
               extractSaltFromBackup L env = salt \<and>
               (\<forall>f g. extractSaltFromBackup (L\<lparr>zlib_gunzip := g, gcm_open := f\<rparr>) env = salt)))"
proof (intro conjI allI impI)
  from lib have b64: "\<forall>bs. base64_decode L (base64_encode L bs) = bs"
    unfolding lib_inverses_def by blast
  {
    assume key: "length key = KEY_LENGTH"
    with lib iv obtain ct tag where "gcm_seal L key iv (compress L p) = Some (ct, tag)"
      unfolding lib_inverses_def by blast
    then show "\<exists>env. encryptBackup L iv p key salt = Inr env"
      by (simp add: encryptBackup_def encrypt_def Let_def)
  }
  fix env
  assume enc: "encryptBackup L iv p key salt = Inr env"
  from enc obtain ct tag where seal: "gcm_seal L key iv (compress L p) = Some (ct, tag)"
    and env: "env = base64_encode L (base64_decode L salt @ iv @ ct @ tag)"
    by (rule encryptBackup_Inr)
  from lib seal have tag: "length tag = AUTH_TAG_LENGTH"
    unfolding lib_inverses_def by blast
  show "\<exists>ct tag.
       gcm_seal L key iv (zlib_gzip L (utf8_encode L p)) = Some (ct, tag) \<and>
       base64_decode L env = base64_decode L salt @ iv @ ct @ tag \<and>
       length (base64_decode L salt) = 32 \<and> length iv = 12 \<and> length tag = 16"
    using seal env tag iv salt b64
    by (auto simp: compress_def AUTH_TAG_LENGTH_def IV_LENGTH_def SALT_LENGTH_def)
  have ex: "extractSaltFromBackup L env = base64_encode L (base64_decode L salt)"
    using env b64 salt by (simp add: extractSaltFromBackup_def Let_def)
  then show "base64_decode L (extractSaltFromBackup L env) = base64_decode L salt"
    using b64 by simp
  assume canonical: "base64_encode L (base64_decode L salt) = salt"
  with ex show "extractSaltFromBackup L env = salt" by simp
  fix f g
  from ex canonical show "extractSaltFromBackup (L\<lparr>zlib_gunzip := g, gcm_open := f\<rparr>) env = salt"
    by (simp add: extractSaltFromBackup_def Let_def)
qed

theorem envelope_wire_format_witness:
  "lib_inverses toyLib \<and> length example_iv = IV_LENGTH \<and>
   length (base64_decode toyLib example_salt) = SALT_LENGTH \<and>
   length example_key = KEY_LENGTH \<and>
   encryptBackup toyLib example_iv ''KEY=1'' example_key example_salt = Inr example_envelope \<and>
   base64_encode toyLib (base64_decode toyLib example_salt) = example_salt \<and>
   (\<exists>ct tag.
      gcm_seal toyLib example_key example_iv (zlib_gzip toyLib (utf8_encode toyLib ''KEY=1'')) = Some (ct, tag) \<and>
      base64_decode toyLib example_envelope = base64_decode toyLib example_salt @ example_iv @ ct @ tag \<and>
      length (base64_decode toyLib example_salt) = 32 \<and> length example_iv = 12 \<and> length tag = 16) \<and>
   extractSaltFromBackup toyLib example_envelope = example_salt"
  using envelope_wire_format [OF toyLib_inverses example_lengths(2,3), of example_key "''KEY=1''"]
    toyLib_inverses example_lengths example_encrypt example_canonical
  by blast

subsection \<open>Restore\<close>

text \<open>
  C4: for an env file of a matched project, with destination the project's local path
  joined with the file's name: when the destination exists and \<open>force\<close> is not set, the
  file is counted as skipped and the local filesystem is left as it was; otherwise the
  content is written there with mode \<open>0o600\<close> (384, the owner's read and write bits) and
  the file is counted as restored. The second half is for a write that does not throw;
  a write that throws counts the file as failed. The restore loops are this step on every
  env file of every matched project in turn, and without \<open>force\<close> a whole run of the
  loops, and so of \<open>restoreCommand\<close>, keeps every file that existed before it.
\<close>

theorem restore_file_skip_or_write:
  fixes options :: RestoreOptions and bp :: BackupProject and lp :: path and envFile :: EnvFile
    and st :: RestoreState and ms :: "MatchedProject list"
  defines "dest \<equiv> path_join lp (filename envFile)"
  defines "st' \<equiv> restore_file options bp lp envFile st"
  shows "(pathExists (localFs st) dest \<and> \<not> force options \<longrightarrow>
            localFs st' = localFs st \<and>
            stats st' = (stats st)\<lparr>skipped := skipped (stats st) + 1\<rparr> \<and>
            items st' = items st @ [(name bp @ ''/'' @ filename envFile, Skipped)]) \<and>
         (\<not> (pathExists (localFs st) dest \<and> \<not> force options) \<and> \<not> write_fails (localFs st) dest \<longrightarrow>
            writeFileContent (localFs st) dest (content envFile) mode_0o600 = Inr (localFs st') \<and>
            files (localFs st') dest = Some \<lparr>file_content = content envFile, file_mode = mode_0o600\<rparr> \<and>
            stats st' = (stats st)\<lparr>restored := restored (stats st) + 1\<rparr> \<and>
            items st' = items st @ [(name bp @ ''/'' @ filename envFile, Restored)]) \<and>
         mode_0o600 = 384 \<and>
         restore_projects options ms st = foldl (restore_step options) st (work_list ms) \<and>
         (\<not> force options \<longrightarrow>
            (\<forall>p x. files (localFs st) p = Some x \<longrightarrow>
               files (localFs (restore_projects options ms st)) p = Some x)) \<and>
         (\<not> force options \<longrightarrow>
            (\<forall>p x. files fs p = Some x \<longrightarrow>
               files (localFs (final (restoreCommand D options blob cwd tree fs))) p = Some x))"
proof (intro conjI impI allI)
  assume a: "pathExists (localFs st) dest \<and> \<not> force options"
  then have eq: "st' = st\<lparr>stats := (stats st)\<lparr>skipped := skipped (stats st) + 1\<rparr>,
            items := items st @ [(name bp @ ''/'' @ filename envFile, Skipped)]\<rparr>"
    unfolding st'_def dest_def by (intro restore_file_skip) simp_all
  show "localFs st' = localFs st" by (simp add: eq)
  show "stats st' = (stats st)\<lparr>skipped := skipped (stats st) + 1\<rparr>" by (simp add: eq)
  show "items st' = items st @ [(name bp @ ''/'' @ filename envFile, Skipped)]" by (simp add: eq)
next
  assume a: "\<not> (pathExists (localFs st) dest \<and> \<not> force options) \<and> \<not> write_fails (localFs st) dest"
  then have eq: "st' = st\<lparr>localFs := (localFs st)\<lparr>files := (files (localFs st))(dest \<mapsto>
                 \<lparr>file_content = content envFile, file_mode = mode_0o600\<rparr>)\<rparr>,
            stats := (stats st)\<lparr>restored := restored (stats st) + 1\<rparr>,
            items := items st @ [(name bp @ ''/'' @ filename envFile, Restored)]\<rparr>"
    unfolding st'_def dest_def by (intro restore_file_write) simp_all
  show "writeFileContent (localFs st) dest (content envFile) mode_0o600 = Inr (localFs st')"
    using a by (simp add: eq writeFileContent_def)
  show "files (localFs st') dest = Some \<lparr>file_content = content envFile, file_mode = mode_0o600\<rparr>"
    by (simp add: eq)
  show "stats st' = (stats st)\<lparr>restored := restored (stats st) + 1\<rparr>" by (simp add: eq)
  show "items st' = items st @ [(name bp @ ''/'' @ filename envFile, Restored)]" by (simp add: eq)
next
  show "mode_0o600 = 384" by (simp add: mode_0o600_def)
  show "restore_projects options ms st = foldl (restore_step options) st (work_list ms)"
    by (rule restore_projects_foldl)
next
  fix p x
  assume "\<not> force options" "files (localFs st) p = Some x"
  then show "files (localFs (restore_projects options ms st)) p = Some x"
    by (simp add: restore_projects_foldl foldl_step_keeps)
next
  fix p x
  assume "\<not> force options" "files fs p = Some x"
  then show "files (localFs (final (restoreCommand D options blob cwd tree fs))) p = Some x"
    by (simp add: restoreCommand_final restore_projects_foldl foldl_step_keeps)
qed

theorem restore_file_skip_or_write_witness:
  "pathExists (localFs example_start) (path_join [''home'', ''u'', ''api''] (filename env_skip)) \<and>
   \<not> force no_force \<and>
   localFs (restore_file no_force api_backup [''home'', ''u'', ''api''] env_skip example_start) = example_fs \<and>
   skipped (stats (restore_file no_force api_backup [''home'', ''u'', ''api''] env_skip example_start)) = 1 \<and>
   \<not> pathExists (localFs example_start) (path_join [''home'', ''u'', ''api''] (filename env_new)) \<and>
   \<not> write_fails (localFs example_start) (path_join [''home'', ''u'', ''api''] (filename env_new)) \<and>
   files (localFs (restore_file no_force api_backup [''home'', ''u'', ''api''] env_new example_start))
     [''home'', ''u'', ''api'', ''config'', ''.env.local''] = Some \<lparr>file_content = ''B=2'', file_mode = 384\<rparr> \<and>
   files (localFs (restore_projects no_force [api_match] example_start)) [''home'', ''u'', ''api'', ''.env'']
     = Some \<lparr>file_content = ''OLD=0'', file_mode = 420\<rparr> \<and>
   files (localFs (final (restoreCommand exampleLib no_force example_blob [''home'', ''u''] work_tree example_fs)))
     [''home'', ''u'', ''api'', ''.env''] = Some \<lparr>file_content = ''OLD=0'', file_mode = 420\<rparr>"
proof -
  have h1: "pathExists (localFs example_start) (path_join [''home'', ''u'', ''api''] (filename env_skip)) \<and>
            \<not> force no_force"
    by code_simp
  have h2: "\<not> (pathExists (localFs example_start) (path_join [''home'', ''u'', ''api''] (filename env_new)) \<and>
               \<not> force no_force) \<and>
            \<not> write_fails (localFs example_start) (path_join [''home'', ''u'', ''api''] (filename env_new))"
    by code_simp
  have h3: "files (localFs example_start) [''home'', ''u'', ''api'', ''.env'']
     = Some \<lparr>file_content = ''OLD=0'', file_mode = 420\<rparr>"
    by code_simp
  have e1: "localFs example_start = example_fs" "skipped (stats example_start) = 0"
    by (simp_all add: example_start_def)
  have e2: "path_join [''home'', ''u'', ''api''] (filename env_new) = [''home'', ''u'', ''api'', ''config'', ''.env.local'']"
    by code_simp
  note skip = restore_file_skip_or_write [where st = example_start and lp = "[''home'', ''u'', ''api'']" and envFile = env_skip
      and options = no_force and bp = api_backup and ms = "[api_match]"]
  note new = restore_file_skip_or_write [where st = example_start and lp = "[''home'', ''u'', ''api'']" and envFile = env_new
      and options = no_force and bp = api_backup and ms = "[api_match]"]
  from skip h1 have s: "localFs (restore_file no_force api_backup [''home'', ''u'', ''api''] env_skip example_start) = example_fs"
    "skipped (stats (restore_file no_force api_backup [''home'', ''u'', ''api''] env_skip example_start)) = 1"
    by (simp_all add: e1)
  have e3: "content env_new = ''B=2''" "mode_0o600 = 384"
    by (simp_all add: env_new_def mode_0o600_def)
  from new h2 have "files (localFs (restore_file no_force api_backup [''home'', ''u'', ''api''] env_new example_start))
     (path_join [''home'', ''u'', ''api''] (filename env_new)) =
     Some \<lparr>file_content = content env_new, file_mode = mode_0o600\<rparr>"
    by blast
  then have n: "files (localFs (restore_file no_force api_backup [''home'', ''u'', ''api''] env_new example_start))
     [''home'', ''u'', ''api'', ''config'', ''.env.local''] = Some \<lparr>file_content = ''B=2'', file_mode = 384\<rparr>"
    by (simp only: e2 e3)
  from skip h1 h3 have k: "files (localFs (restore_projects no_force [api_match] example_start)) [''home'', ''u'', ''api'', ''.env'']
     = Some \<lparr>file_content = ''OLD=0'', file_mode = 420\<rparr>"
    by blast
  have h4: "files example_fs [''home'', ''u'', ''api'', ''.env'']
     = Some \<lparr>file_content = ''OLD=0'', file_mode = 420\<rparr>"
    by code_simp
  from restore_file_skip_or_write [where options = no_force and fs = example_fs and D = exampleLib
      and blob = example_blob and cwd = "[''home'', ''u'']" and tree = work_tree] h1 h4
  have c: "files (localFs (final (restoreCommand exampleLib no_force example_blob [''home'', ''u''] work_tree example_fs)))
     [''home'', ''u'', ''api'', ''.env''] = Some \<lparr>file_content = ''OLD=0'', file_mode = 420\<rparr>"
    by blast
  from h1 h2 s n k c show ?thesis by blast
qed

text \<open>
  C5: the matcher splits the projects of the backup, in order, into those whose fingerprint
  is a key of the map built from the local projects (matched) and the others (unmatched),
  so each lands in exactly one of the two lists; the keys of the map are the fingerprints
  of the local projects, and the local path of a match is the path of the last local
  project with that fingerprint. \<open>restoreCommand\<close> matches the projects of the backup
  document against the scan of the working directory in this way.
\<close>

theorem match_loop_partition:
  fixes localProjects :: "Project list" and bps :: "BackupProject list"
  defines "fm \<equiv> buildFingerprintMap localProjects"
  defines "ms \<equiv> fst (match_loop fm bps ([], []))"
  defines "us \<equiv> snd (match_loop fm bps ([], []))"
  shows "dom fm = fingerprint ` set localProjects \<and>
         map backupProject ms = filter (\<lambda>p. fingerprint p \<in> dom fm) bps \<and>
         us = filter (\<lambda>p. fingerprint p \<notin> dom fm) bps \<and>
         length ms + length us = length bps \<and>
         (\<forall>m \<in> set ms. localPath m =
            path (last (filter (\<lambda>q. fingerprint q = fingerprint (backupProject m)) localProjects))) \<and>
         matched (restoreCommand D options blob cwd tree fs) =
           fst (match_loop (buildFingerprintMap (projects (scanDirectory D cwd tree)))
                  (blob_projects blob) ([], [])) \<and>
         unmatched (restoreCommand D options blob cwd tree fs) =
           snd (match_loop (buildFingerprintMap (projects (scanDirectory D cwd tree)))
                  (blob_projects blob) ([], []))"
proof -
  have d: "dom fm = fingerprint ` set localProjects"
    by (simp add: fm_def dom_buildFingerprintMap)
  have m: "ms = map (\<lambda>p. \<lparr>backupProject = p, localPath = the (fm (fingerprint p))\<rparr>)
                  (filter (\<lambda>p. fingerprint p \<in> dom fm) bps)"
    by (simp add: ms_def match_loop_eq)
  have u: "us = filter (\<lambda>p. fingerprint p \<notin> dom fm) bps"
    by (simp add: us_def match_loop_eq)
  have m1: "map backupProject ms = filter (\<lambda>p. fingerprint p \<in> dom fm) bps"
    by (simp add: m comp_def)
  have len: "length ms + length us = length bps"
    unfolding m u by (simp add: sum_length_filter_compl)
  have lp: "\<forall>m \<in> set ms. localPath m =
            path (last (filter (\<lambda>q. fingerprint q = fingerprint (backupProject m)) localProjects))"
  proof
    fix x assume "x \<in> set ms"
    then obtain p where p: "p \<in> set bps" "fingerprint p \<in> dom fm"
      and x: "x = \<lparr>backupProject = p, localPath = the (fm (fingerprint p))\<rparr>"
      unfolding m by auto
    from p(2) d obtain q where q: "q \<in> set localProjects" "fingerprint q = fingerprint p"
      by auto
    from last_filter_fingerprint [OF q(1)] q(2)
    have "fm (fingerprint p) = Some (path (last (filter (\<lambda>r. fingerprint r = fingerprint p) localProjects)))"
      by (simp add: fm_def)
    then show "localPath x =
            path (last (filter (\<lambda>q. fingerprint q = fingerprint (backupProject x)) localProjects))"
      by (simp add: x)
  qed
  from d m1 u len lp restoreCommand_matched [of D options blob cwd tree fs]
  show ?thesis by blast
qed

theorem match_loop_partition_witness:
  "fingerprint api_clone = fingerprint api_project \<and> path api_clone \<noteq> path api_project \<and>
   match_loop (buildFingerprintMap [api_project, tools_project, api_clone]) [api_backup, gone_backup] ([], []) =
     ([\<lparr>backupProject = api_backup, localPath = [''home'', ''u'', ''api-clone'']\<rparr>], [gone_backup]) \<and>
   \<lparr>backupProject = api_backup, localPath = [''home'', ''u'', ''api-clone'']\<rparr>
     \<in> set (fst (match_loop (buildFingerprintMap [api_project, tools_project, api_clone])
                    [api_backup, gone_backup] ([], []))) \<and>
   localPath \<lparr>backupProject = api_backup, localPath = [''home'', ''u'', ''api-clone'']\<rparr> =
     path (last (filter (\<lambda>q. fingerprint q =
        fingerprint (backupProject \<lparr>backupProject = api_backup, localPath = [''home'', ''u'', ''api-clone'']\<rparr>))
        [api_project, tools_project, api_clone]))"
proof -
  let ?m = "\<lparr>backupProject = api_backup, localPath = [''home'', ''u'', ''api-clone'']\<rparr>"
  have f: "fingerprint api_clone = fingerprint api_project \<and> path api_clone \<noteq> path api_project"
    by code_simp
  have e: "match_loop (buildFingerprintMap [api_project, tools_project, api_clone]) [api_backup, gone_backup] ([], []) =
     ([?m], [gone_backup])"
    by code_simp
  then have m: "?m \<in> set (fst (match_loop (buildFingerprintMap [api_project, tools_project, api_clone])
                    [api_backup, gone_backup] ([], [])))"
    by simp
  from match_loop_partition [of "[api_project, tools_project, api_clone]" "[api_backup, gone_backup]"]
  have "\<forall>m \<in> set (fst (match_loop (buildFingerprintMap [api_project, tools_project, api_clone])
                    [api_backup, gone_backup] ([], []))).
          localPath m = path (last (filter (\<lambda>q. fingerprint q = fingerprint (backupProject m))
            [api_project, tools_project, api_clone]))"
    by blast
  with m have "localPath ?m = path (last (filter (\<lambda>q. fingerprint q = fingerprint (backupProject ?m))
            [api_project, tools_project, api_clone]))"
    by blast
  with f e m show ?thesis by blast
qed

text \<open>
  C6: every env file of every matched project is counted once: the three counters together
  grow by the number of env files of the matched projects, one line is logged for each,
  and after \<open>restoreCommand\<close> they add up to that number. A write that throws adds one
  to \<open>failed\<close> and changes nothing else: the files after it are handled as if the failing
  file had not been in the backup, with the same filesystem in the end and the same
  \<open>restored\<close> and \<open>skipped\<close> counts.
\<close>

theorem restore_counts_each_file_once:
  "counted (stats (restore_projects options ms st)) =
     counted (stats st) + sum_list (map (\<lambda>m. length (envs (backupProject m))) ms) \<and>
   length (items (restore_projects options ms st)) =
     length (items st) + sum_list (map (\<lambda>m. length (envs (backupProject m))) ms) \<and>
   counted (stats (final (restoreCommand D options blob cwd tree fs))) =
     sum_list (map (\<lambda>m. length (envs (backupProject m))) (matched (restoreCommand D options blob cwd tree fs))) \<and>
   restore_projects options ms st = foldl (restore_step options) st (work_list ms) \<and>
   (\<forall>xs w ys.
      \<not> (pathExists (localFs (foldl (restore_step options) st xs)) (destination w) \<and> \<not> force options) \<and>
      write_fails (localFs (foldl (restore_step options) st xs)) (destination w) \<longrightarrow>
      localFs (foldl (restore_step options) st (xs @ w # ys)) =
        localFs (foldl (restore_step options) st (xs @ ys)) \<and>
      restored (stats (foldl (restore_step options) st (xs @ w # ys))) =
        restored (stats (foldl (restore_step options) st (xs @ ys))) \<and>
      skipped (stats (foldl (restore_step options) st (xs @ w # ys))) =
        skipped (stats (foldl (restore_step options) st (xs @ ys))) \<and>
      failed (stats (foldl (restore_step options) st (xs @ w # ys))) =
        failed (stats (foldl (restore_step options) st (xs @ ys))) + 1)"
proof (intro conjI allI impI)
  show "counted (stats (restore_projects options ms st)) =
     counted (stats st) + sum_list (map (\<lambda>m. length (envs (backupProject m))) ms)"
    by (simp add: restore_projects_foldl foldl_step_counted work_list_length)
  show "length (items (restore_projects options ms st)) =
     length (items st) + sum_list (map (\<lambda>m. length (envs (backupProject m))) ms)"
    by (simp add: restore_projects_foldl foldl_step_items work_list_length)
  show "counted (stats (final (restoreCommand D options blob cwd tree fs))) =
     sum_list (map (\<lambda>m. length (envs (backupProject m))) (matched (restoreCommand D options blob cwd tree fs)))"
  proof -
    have "counted \<lparr>restored = 0, skipped = 0, failed = 0\<rparr> = 0" by (simp add: counted_def)
    then show ?thesis
      by (simp add: restoreCommand_final restore_projects_foldl foldl_step_counted work_list_length)
  qed
  show "restore_projects options ms st = foldl (restore_step options) st (work_list ms)"
    by (rule restore_projects_foldl)
next
  fix xs w ys
  let ?s1 = "foldl (restore_step options) st xs"
  assume a: "\<not> (pathExists (localFs ?s1) (destination w) \<and> \<not> force options) \<and>
      write_fails (localFs ?s1) (destination w)"
  let ?s2 = "restore_step options ?s1 w"
  from a have s2: "?s2 = ?s1\<lparr>stats := (stats ?s1)\<lparr>failed := failed (stats ?s1) + 1\<rparr>,
            items := items ?s1 @ [(name (backupProject (fst w)) @ ''/'' @ filename (snd w), Failed)]\<rparr>"
    unfolding restore_step_def destination_def by (intro restore_file_fail) simp_all
  then have fs: "localFs ?s2 = localFs ?s1"
    and r: "restored (stats ?s2) = restored (stats ?s1)"
    and k: "skipped (stats ?s2) = skipped (stats ?s1)"
    and f: "failed (stats ?s2) = failed (stats ?s1) + 1"
    by simp_all
  from foldl_step_shift [OF fs, of options ys] r k f
  show "localFs (foldl (restore_step options) st (xs @ w # ys)) =
        localFs (foldl (restore_step options) st (xs @ ys))"
    and "restored (stats (foldl (restore_step options) st (xs @ w # ys))) =
        restored (stats (foldl (restore_step options) st (xs @ ys)))"
    and "skipped (stats (foldl (restore_step options) st (xs @ w # ys))) =
        skipped (stats (foldl (restore_step options) st (xs @ ys)))"
    and "failed (stats (foldl (restore_step options) st (xs @ w # ys))) =
        failed (stats (foldl (restore_step options) st (xs @ ys))) + 1"
    by simp_all
qed

theorem restore_counts_each_file_once_witness:
  "work_list [api_match] = [(api_match, env_skip), (api_match, env_fail), (api_match, env_new)] \<and>
   \<not> pathExists (localFs (foldl (restore_step no_force) example_start [(api_match, env_skip)]))
       (destination (api_match, env_fail)) \<and>
   write_fails (localFs (foldl (restore_step no_force) example_start [(api_match, env_skip)]))
       (destination (api_match, env_fail)) \<and>
   stats (restore_projects no_force [api_match] example_start) = \<lparr>restored = 1, skipped = 1, failed = 1\<rparr> \<and>
   counted (stats (restore_projects no_force [api_match] example_start)) = 3 \<and>
   localFs (foldl (restore_step no_force) example_start
              ([(api_match, env_skip)] @ (api_match, env_fail) # [(api_match, env_new)])) =
     localFs (foldl (restore_step no_force) example_start ([(api_match, env_skip)] @ [(api_match, env_new)])) \<and>
   failed (stats (foldl (restore_step no_force) example_start
              ([(api_match, env_skip)] @ (api_match, env_fail) # [(api_match, env_new)]))) =
     failed (stats (foldl (restore_step no_force) example_start ([(api_match, env_skip)] @ [(api_match, env_new)]))) + 1"
proof -
  have w: "work_list [api_match] = [(api_match, env_skip), (api_match, env_fail), (api_match, env_new)]"
    by code_simp
  have h: "\<not> (pathExists (localFs (foldl (restore_step no_force) example_start [(api_match, env_skip)]))
       (destination (api_match, env_fail)) \<and> \<not> force no_force) \<and>
   write_fails (localFs (foldl (restore_step no_force) example_start [(api_match, env_skip)]))
       (destination (api_match, env_fail))"
    by code_simp
  have h': "\<not> pathExists (localFs (foldl (restore_step no_force) example_start [(api_match, env_skip)]))
       (destination (api_match, env_fail))"
    by code_simp
  have s: "stats (restore_projects no_force [api_match] example_start) = \<lparr>restored = 1, skipped = 1, failed = 1\<rparr>"
    by code_simp
  have c0: "counted (stats example_start) = 0" "length (envs (backupProject api_match)) = 3"
    by code_simp+
  note inst = restore_counts_each_file_once [where options = no_force and ms = "[api_match]" and st = example_start]
  from inst have "counted (stats (restore_projects no_force [api_match] example_start)) =
      counted (stats example_start) + sum_list (map (\<lambda>m. length (envs (backupProject m))) [api_match])"
    by (rule conjunct1)
  moreover have "sum_list (map (\<lambda>m. length (envs (backupProject m))) [api_match]) = 3"
    using c0(2) by simp
  ultimately have c: "counted (stats (restore_projects no_force [api_match] example_start)) = 3"
    using c0(1) by (simp only: add_0)
  from inst h have "localFs (foldl (restore_step no_force) example_start
              ([(api_match, env_skip)] @ (api_match, env_fail) # [(api_match, env_new)])) =
     localFs (foldl (restore_step no_force) example_start ([(api_match, env_skip)] @ [(api_match, env_new)])) \<and>
   failed (stats (foldl (restore_step no_force) example_start
              ([(api_match, env_skip)] @ (api_match, env_fail) # [(api_match, env_new)]))) =
     failed (stats (foldl (restore_step no_force) example_start ([(api_match, env_skip)] @ [(api_match, env_new)]))) + 1"
    by blast
  with w h h' s c show ?thesis by blast
qed

text \<open>
  C10: the restore writes an env file at \<open>path.join\<close> of the matched project's local path
  and the file name the backup gives, and nowhere else; nothing checks that this place is
  below the local path. With the file name \<open>../other/.env\<close> the content lands in
  \<open>/home/u/other/.env\<close>, outside the project \<open>/home/u/api\<close>.
\<close>

theorem restore_destination_unchecked:
  "(\<forall>q. q \<noteq> path_join lp (filename envFile) \<longrightarrow>
      files (localFs (restore_file options bp lp envFile st)) q = files (localFs st) q) \<and>
   (\<not> (pathExists (localFs st) (path_join lp (filename envFile)) \<and> \<not> force options) \<and>
    \<not> write_fails (localFs st) (path_join lp (filename envFile)) \<longrightarrow>
      files (localFs (restore_file options bp lp envFile st)) (path_join lp (filename envFile)) =
        Some \<lparr>file_content = content envFile, file_mode = mode_0o600\<rparr>) \<and>
   matched (restoreCommand exampleLib no_force escape_blob [''home'', ''u''] work_tree example_fs) =
     [\<lparr>backupProject = escape_backup, localPath = [''home'', ''u'', ''api'']\<rparr>] \<and>
   envs escape_backup = [env_escape] \<and>
   filename env_escape = ''../other/.env'' \<and>
   path_join [''home'', ''u'', ''api''] (filename env_escape) = [''home'', ''u'', ''other'', ''.env''] \<and>
   \<not> prefix [''home'', ''u'', ''api''] [''home'', ''u'', ''other'', ''.env''] \<and>
   files example_fs [''home'', ''u'', ''other'', ''.env''] = None \<and>
   files (localFs (final (restoreCommand exampleLib no_force escape_blob [''home'', ''u''] work_tree example_fs)))
     [''home'', ''u'', ''other'', ''.env''] = Some \<lparr>file_content = ''PWNED=1'', file_mode = mode_0o600\<rparr>"
proof (intro conjI allI impI)
  fix q assume "q \<noteq> path_join lp (filename envFile)"
  then show "files (localFs (restore_file options bp lp envFile st)) q = files (localFs st) q"
    by (rule restore_file_elsewhere)
next
  assume "\<not> (pathExists (localFs st) (path_join lp (filename envFile)) \<and> \<not> force options) \<and>
    \<not> write_fails (localFs st) (path_join lp (filename envFile))"
  then show "files (localFs (restore_file options bp lp envFile st)) (path_join lp (filename envFile)) =
        Some \<lparr>file_content = content envFile, file_mode = mode_0o600\<rparr>"
    by (simp add: restore_file_write)
next
  show "matched (restoreCommand exampleLib no_force escape_blob [''home'', ''u''] work_tree example_fs) =
     [\<lparr>backupProject = escape_backup, localPath = [''home'', ''u'', ''api'']\<rparr>]"
    by code_simp
  show "envs escape_backup = [env_escape]" by code_simp
  show "filename env_escape = ''../other/.env''" by code_simp
  show "path_join [''home'', ''u'', ''api''] (filename env_escape) = [''home'', ''u'', ''other'', ''.env'']"
    by code_simp
  show "\<not> prefix [''home'', ''u'', ''api''] [''home'', ''u'', ''other'', ''.env'']"
    by simp
  show "files example_fs [''home'', ''u'', ''other'', ''.env''] = None"
    by code_simp
  show "files (localFs (final (restoreCommand exampleLib no_force escape_blob [''home'', ''u''] work_tree example_fs)))
     [''home'', ''u'', ''other'', ''.env''] = Some \<lparr>file_content = ''PWNED=1'', file_mode = mode_0o600\<rparr>"
    by code_simp
qed

theorem restore_destination_unchecked_witness:
  "\<not> pathExists (localFs example_start) (path_join [''home'', ''u'', ''api''] (filename env_escape)) \<and>
   \<not> write_fails (localFs example_start) (path_join [''home'', ''u'', ''api''] (filename env_escape)) \<and>
   files (localFs (restore_file no_force escape_backup [''home'', ''u'', ''api''] env_escape example_start))
     (path_join [''home'', ''u'', ''api''] (filename env_escape)) =
     Some \<lparr>file_content = content env_escape, file_mode = mode_0o600\<rparr> \<and>
   [''home'', ''u'', ''api'', ''.env''] \<noteq> path_join [''home'', ''u'', ''api''] (filename env_escape) \<and>
   files (localFs (restore_file no_force escape_backup [''home'', ''u'', ''api''] env_escape example_start))
     [''home'', ''u'', ''api'', ''.env''] = files (localFs example_start) [''home'', ''u'', ''api'', ''.env'']"
proof -
  have h: "\<not> (pathExists (localFs example_start) (path_join [''home'', ''u'', ''api''] (filename env_escape)) \<and>
               \<not> force no_force) \<and>
   \<not> write_fails (localFs example_start) (path_join [''home'', ''u'', ''api''] (filename env_escape))"
    by code_simp
  have h': "\<not> pathExists (localFs example_start) (path_join [''home'', ''u'', ''api''] (filename env_escape))"
    by code_simp
  have q: "[''home'', ''u'', ''api'', ''.env''] \<noteq> path_join [''home'', ''u'', ''api''] (filename env_escape)"
    by code_simp
  note inst = restore_destination_unchecked [where lp = "[''home'', ''u'', ''api'']" and envFile = env_escape
      and options = no_force and bp = escape_backup and st = example_start]
  from inst h q h' show ?thesis by blast
qed

subsection \<open>Filesystem scanner\<close>

text \<open>
  C7: in a tree whose directories list valid names, each once, no project that
  \<open>scanDirectory\<close> emits has its path strictly inside the path of another one. Every
  project emitted sits at a project root \<open>pn\<close> of the tree, and its env files include
  every readable env file reached from \<open>pn\<close> through readable directories that are neither
  on the deny-list nor hidden, whether or not those directories are project roots
  themselves.
\<close>

theorem scan_projects_not_nested:
  assumes wf: "wf_node root"
  shows "(\<forall>p \<in> set (projects (scanDirectory D rootPath root)).
            \<forall>q \<in> set (projects (scanDirectory D rootPath root)). \<not> strict_prefix (path p) (path q)) \<and>
         (\<forall>p \<in> set (projects (scanDirectory D rootPath root)).
            \<exists>ds pn. walk root ds pn \<and> path p = rootPath @ ds \<and> isProjectRoot pn \<and>
              (\<forall>ds' nm c.
                 walk pn (ds' @ [nm]) (File (Some c)) \<and>
                 (\<forall>d \<in> set ds'. d \<notin> SKIP_DIRS \<and> \<not> startsWith d ''.'') \<and> isEnvFile nm \<longrightarrow>
                 \<lparr>filename = foldl join_rel [] (ds' @ [nm]), checksum = sha256 D c, content = c\<rparr>
                   \<in> set (envs p)))"
proof (intro conjI ballI)
  let ?ps = "projects (scanDirectory D rootPath root)"
  have loc: "\<exists>ds pn. finds_top root ds pn \<and> path p = rootPath @ ds \<and> envs p = findEnvFiles D pn"
    if "p \<in> set ?ps" for p
  proof -
    from scanDirectory_sound [OF that] obtain ds pn where
      f: "finds_top root ds pn" and l: "located D rootPath p ds pn" by blast
    from finds_top_walk [OF f] wf have "\<forall>d \<in> set ds. valid_name d"
      by (auto dest: wf_walk)
    then have "foldl path_join rootPath ds = rootPath @ ds" by (rule foldl_path_join_valid)
    with f l show ?thesis unfolding located_def by auto
  qed
  {
    fix p q assume "p \<in> set ?ps" "q \<in> set ?ps"
    from loc [OF this(1)] loc [OF this(2)] obtain ds pn ds' pn' where
      "finds_top root ds pn" "path p = rootPath @ ds" "finds_top root ds' pn'" "path q = rootPath @ ds'"
      by blast
    with finds_top_antichain [OF _ _ wf] show "\<not> strict_prefix (path p) (path q)"
      by (simp add: strict_prefix_same_append)
  }
  {
    fix p assume "p \<in> set ?ps"
    from loc [OF this] obtain ds pn where f: "finds_top root ds pn" and pa: "path p = rootPath @ ds"
      and en: "envs p = findEnvFiles D pn" by blast
    have "\<lparr>filename = foldl join_rel [] (ds' @ [nm]), checksum = sha256 D c, content = c\<rparr> \<in> set (envs p)"
      if "walk pn (ds' @ [nm]) (File (Some c)) \<and>
          (\<forall>d \<in> set ds'. d \<notin> SKIP_DIRS \<and> \<not> startsWith d ''.'') \<and> isEnvFile nm" for ds' nm c
    proof -
      from that have "(ds', nm, c) \<in> env_locs pn" by (simp add: env_locs_def)
      then have "mkEnv D [] ds' nm c \<in> env_set D [] pn"
        unfolding env_set_def by force
      then show ?thesis by (simp add: en set_findEnvFiles mkEnv_def)
    qed
    with finds_top_walk [OF f] pa
    show "\<exists>ds pn. walk root ds pn \<and> path p = rootPath @ ds \<and> isProjectRoot pn \<and>
              (\<forall>ds' nm c.
                 walk pn (ds' @ [nm]) (File (Some c)) \<and>
                 (\<forall>d \<in> set ds'. d \<notin> SKIP_DIRS \<and> \<not> startsWith d ''.'') \<and> isEnvFile nm \<longrightarrow>
                 \<lparr>filename = foldl join_rel [] (ds' @ [nm]), checksum = sha256 D c, content = c\<rparr>
                   \<in> set (envs p))"
      by blast
  }
qed

theorem scan_projects_not_nested_witness:
  "wf_node work_tree \<and>
   api_project \<in> set (projects (scanDirectory exampleLib [''home'', ''u''] work_tree)) \<and>
   tools_project \<in> set (projects (scanDirectory exampleLib [''home'', ''u''] work_tree)) \<and>
   \<not> strict_prefix (path api_project) (path tools_project) \<and>
   isProjectRoot web_node \<and>
   walk api_node ([''packages'', ''web''] @ [''.env.local'']) (File (Some ''WEB=1'')) \<and>
   \<lparr>filename = ''packages/web/.env.local'', checksum = ''sha:WEB=1'', content = ''WEB=1''\<rparr>
     \<in> set (envs api_project)"
proof -
  let ?ps = "projects (scanDirectory exampleLib [''home'', ''u''] work_tree)"
  note inst = scan_projects_not_nested [OF work_wf, of exampleLib "[''home'', ''u'']"]
  have m: "api_project \<in> set ?ps" "tools_project \<in> set ?ps"
    by (simp_all add: work_scan)
  from inst m have anti: "\<not> strict_prefix (path api_project) (path tools_project)"
    by blast
  have web: "isProjectRoot web_node" by code_simp
  from inst m(1) obtain ds pn where w: "walk work_tree ds pn"
    and p: "path api_project = [''home'', ''u''] @ ds"
    and all: "\<forall>ds' nm c.
                 walk pn (ds' @ [nm]) (File (Some c)) \<and>
                 (\<forall>d \<in> set ds'. d \<notin> SKIP_DIRS \<and> \<not> startsWith d ''.'') \<and> isEnvFile nm \<longrightarrow>
                 \<lparr>filename = foldl join_rel [] (ds' @ [nm]), checksum = sha256 exampleLib c, content = c\<rparr>
                   \<in> set (envs api_project)"
    by blast
  from p have "ds = [''api'']" by (simp add: api_project_def)
  with w have pn: "pn = api_node" by (simp add: work_tree_api)
  have v: "(\<forall>d \<in> set [''packages'', ''web'']. d \<notin> SKIP_DIRS \<and> \<not> startsWith d ''.'') \<and> isEnvFile ''.env.local''"
    by code_simp
  have f: "foldl join_rel [] ([''packages'', ''web''] @ [''.env.local'']) = ''packages/web/.env.local''"
    "sha256 exampleLib ''WEB=1'' = ''sha:WEB=1''"
    by code_simp+
  from all walk_web_env v pn
  have "\<lparr>filename = foldl join_rel [] ([''packages'', ''web''] @ [''.env.local'']),
         checksum = sha256 exampleLib ''WEB=1'', content = ''WEB=1''\<rparr> \<in> set (envs api_project)"
    by blast
  then have env: "\<lparr>filename = ''packages/web/.env.local'', checksum = ''sha:WEB=1'', content = ''WEB=1''\<rparr>
     \<in> set (envs api_project)"
    by (simp only: f)
  from work_wf m anti web walk_web_env env show ?thesis by blast
qed

text \<open>
  C8 does not hold of \<open>scanDirectory\<close>: its loop over the entries of the root tests the
  deny-list only, not the leading dot that the loop of \<open>scan\<close> and \<open>findEnvFiles\<close> test. A
  hidden directory directly under the root is entered and, being a project root, emitted
  with its env file; the same directory one level further down is skipped.
\<close>

theorem scanDirectory_enters_hidden_root_child:
  "startsWith ''.hidden'' ''.'' \<and> ''.hidden'' \<notin> SKIP_DIRS \<and> \<not> isProjectRoot hidden_tree \<and>
   map path (projects (scanDirectory exampleLib [''home'', ''u''] hidden_tree)) = [[''home'', ''u'', ''.hidden'']] \<and>
   map envs (projects (scanDirectory exampleLib [''home'', ''u''] hidden_tree)) =
     [[\<lparr>filename = ''.env'', checksum = ''sha:SECRET=1'', content = ''SECRET=1''\<rparr>]] \<and>
   projects (scanDirectory exampleLib [''home'', ''u''] nested_hidden_tree) = []"
  by code_simp

text \<open>
  C9: every project that \<open>scanDirectory\<close> emits sits at a place of the tree reached from
  the root through directories none of which is on the deny-list, and every env file
  collected for it sits at a place reached from the project through directories none of
  which is on the deny-list.
\<close>

theorem scan_avoids_skip_dirs:
  "\<forall>p \<in> set (projects (scanDirectory D rootPath root)).
     \<exists>ds pn. walk root ds pn \<and> path p = foldl path_join rootPath ds \<and>
       (wf_node root \<longrightarrow> path p = rootPath @ ds) \<and>
       (\<forall>d \<in> set ds. d \<notin> SKIP_DIRS) \<and>
       (\<forall>e \<in> set (envs p).
          \<exists>ds' nm c. walk pn (ds' @ [nm]) (File (Some c)) \<and>
            filename e = foldl join_rel [] (ds' @ [nm]) \<and> content e = c \<and>
            (\<forall>d \<in> set ds'. d \<notin> SKIP_DIRS))"
proof
  fix p assume "p \<in> set (projects (scanDirectory D rootPath root))"
  from scanDirectory_sound [OF this] obtain ds pn where
    f: "finds_top root ds pn" and l: "located D rootPath p ds pn" by blast
  from finds_top_walk [OF f] have w: "walk root ds pn" and s: "\<forall>d \<in> set ds. d \<notin> SKIP_DIRS"
    by simp_all
  have v: "path p = rootPath @ ds" if "wf_node root"
  proof -
    from w that have "\<forall>d \<in> set ds. valid_name d" by (auto dest: wf_walk)
    then have "foldl path_join rootPath ds = rootPath @ ds" by (rule foldl_path_join_valid)
    with l show ?thesis by (simp add: located_def)
  qed
  have e: "\<exists>ds' nm c. walk pn (ds' @ [nm]) (File (Some c)) \<and>
            filename e = foldl join_rel [] (ds' @ [nm]) \<and> content e = c \<and>
            (\<forall>d \<in> set ds'. d \<notin> SKIP_DIRS)" if "e \<in> set (envs p)" for e
  proof -
    from that l have "e \<in> env_set D [] pn"
      by (simp add: located_def set_findEnvFiles)
    then obtain ds' nm c where "(ds', nm, c) \<in> env_locs pn" "e = mkEnv D [] ds' nm c"
      unfolding env_set_def by auto
    then show ?thesis
      by (auto simp: env_locs_def mkEnv_def)
  qed
  from w l s v e
  show "\<exists>ds pn. walk root ds pn \<and> path p = foldl path_join rootPath ds \<and>
       (wf_node root \<longrightarrow> path p = rootPath @ ds) \<and>
       (\<forall>d \<in> set ds. d \<notin> SKIP_DIRS) \<and>
       (\<forall>e \<in> set (envs p).
          \<exists>ds' nm c. walk pn (ds' @ [nm]) (File (Some c)) \<and>
            filename e = foldl join_rel [] (ds' @ [nm]) \<and> content e = c \<and>
            (\<forall>d \<in> set ds'. d \<notin> SKIP_DIRS))"
    unfolding located_def by blast
qed

theorem scan_avoids_skip_dirs_witness:
  "api_project \<in> set (projects (scanDirectory exampleLib [''home'', ''u''] work_tree)) \<and>
   ''node_modules'' \<in> SKIP_DIRS \<and>
   walk work_tree [''node_modules'', ''lib''] lib_node \<and> isProjectRoot lib_node \<and>
   walk api_node ([''node_modules''] @ [''.env'']) (File (Some ''DEP=1'')) \<and>
   wf_node work_tree \<and>
   (\<exists>ds pn. walk work_tree ds pn \<and> path api_project = [''home'', ''u''] @ ds \<and>
       (\<forall>d \<in> set ds. d \<notin> SKIP_DIRS) \<and>
       (\<forall>e \<in> set (envs api_project).
          \<exists>ds' nm c. walk pn (ds' @ [nm]) (File (Some c)) \<and>
            filename e = foldl join_rel [] (ds' @ [nm]) \<and> content e = c \<and>
            (\<forall>d \<in> set ds'. d \<notin> SKIP_DIRS)))"
proof -
  have m: "api_project \<in> set (projects (scanDirectory exampleLib [''home'', ''u''] work_tree))"
    by (simp add: work_scan)
  have s: "''node_modules'' \<in> SKIP_DIRS" "isProjectRoot lib_node" by code_simp+
  have w1: "walk work_tree [''node_modules'', ''lib''] lib_node"
    by (auto simp: work_tree_def lib_node_def walk_Cons)
  have w2: "walk api_node ([''node_modules''] @ [''.env'']) (File (Some ''DEP=1''))"
    by (auto simp: api_node_def walk_Cons)
  from scan_avoids_skip_dirs [of exampleLib "[''home'', ''u'']" work_tree] m work_wf
  have "\<exists>ds pn. walk work_tree ds pn \<and> path api_project = [''home'', ''u''] @ ds \<and>
       (\<forall>d \<in> set ds. d \<notin> SKIP_DIRS) \<and>
       (\<forall>e \<in> set (envs api_project).
          \<exists>ds' nm c. walk pn (ds' @ [nm]) (File (Some c)) \<and>
            filename e = foldl join_rel [] (ds' @ [nm]) \<and> content e = c \<and>
            (\<forall>d \<in> set ds'. d \<notin> SKIP_DIRS))"
    by blast
  with m s w1 w2 work_wf show ?thesis by blast
qed

end
